theory Spec2Isabelle
  imports Complex_Main "HOL-Library.Sublist"
begin

section \<open>A wake-on-demand proxy: the model of \<open>src/server.js\<close>\<close>

text \<open>
  The program is one Node.js module. It keeps two module-level variables
  (\<open>restarting\<close>, \<open>lastWake\<close>), answers the first data chunk of every TCP connection
  from an \<open>async\<close> handler, and talks to two HTTP collaborators through three \<open>async\<close>
  wrappers. The model has three layers:
  \<^item> the JavaScript values the wrappers look at (parsed JSON, property reads, truthiness);
  \<^item> the wrappers as functions of the outcome of their HTTP round trip, an exception
    being the \<open>Inl\<close> branch of a sum;
  \<^item> the event loop: the handler is cut at its three \<open>await\<close>s into four synchronous
    segments, each a function on the state of the process, and a run of the process is a
    list of time-stamped events.
  Console output is not part of the model.
\<close>

subsection \<open>JavaScript strings and parsed JSON\<close>

text \<open>A JavaScript string is a sequence of UTF-16 code units.\<close>

type_synonym js_string = "nat list"

definition str :: "string \<Rightarrow> js_string" where
  "str s = map of_char s"

text \<open>
  The result of \<open>JSON.parse\<close>. A parsed number is a finite double, hence a rational; the
  program only ever tests a number for being zero. \<open>undefined\<close> is not JSON: a JavaScript
  value that may be \<open>undefined\<close> is a \<open>json option\<close>, \<open>None\<close> being \<open>undefined\<close>.
  An object is the list of its own properties, each name once.
\<close>

datatype json =
    JNull
  | JBool bool
  | JNum rat
  | JStr js_string
  | JArr "json list"
  | JObj "(js_string \<times> json) list"

type_synonym js_value = "json option"

datatype exn = TypeError | FetchError | SyntaxError

text \<open>
  \<open>v.k\<close> and \<open>v[0]\<close>. Reading a property of \<open>null\<close> or \<open>undefined\<close> throws a TypeError.
  An object answers with its own property; an array and a string answer \<open>length\<close> and
  the index \<open>0\<close>; a number and a boolean have none of the properties the program reads
  (\<open>status\<close>, \<open>errors\<close>, \<open>data\<close>, \<open>deployments\<close>, \<open>edges\<close>, \<open>length\<close>, \<open>0\<close>, \<open>node\<close>, \<open>id\<close>:
  no prototype defines one of these names apart from \<open>length\<close>).
\<close>

fun get_prop :: "js_value \<Rightarrow> js_string \<Rightarrow> exn + js_value" where
  "get_prop None k = Inl TypeError"
| "get_prop (Some JNull) k = Inl TypeError"
| "get_prop (Some (JObj kvs)) k = Inr (map_of kvs k)"
| "get_prop (Some (JArr xs)) k =
     Inr (if k = str ''length'' then Some (JNum (of_nat (length xs)))
          else if k = str ''0'' then (case xs of [] \<Rightarrow> None | x # _ \<Rightarrow> Some x)
          else None)"
| "get_prop (Some (JStr s)) k =
     Inr (if k = str ''length'' then Some (JNum (of_nat (length s)))
          else if k = str ''0'' then (case s of [] \<Rightarrow> None | c # _ \<Rightarrow> Some (JStr [c]))
          else None)"
| "get_prop (Some (JBool b)) k = Inr None"
| "get_prop (Some (JNum n)) k = Inr None"

text \<open>What \<open>if (v)\<close> and \<open>!v\<close> test.\<close>

fun truthy :: "js_value \<Rightarrow> bool" where
  "truthy None = False"
| "truthy (Some JNull) = False"
| "truthy (Some (JBool b)) = b"
| "truthy (Some (JNum n)) = (n \<noteq> 0)"
| "truthy (Some (JStr s)) = (s \<noteq> [])"
| "truthy (Some (JArr xs)) = True"
| "truthy (Some (JObj kvs)) = True"

subsection \<open>One HTTP round trip\<close>

text \<open>
  What \<open>await fetch(...)\<close> followed by \<open>await res.json()\<close> can give: the request is
  rejected (no connection, DNS, reset), or a response arrives with a status code and
  a body that \<open>res.json()\<close> either parses or rejects.
\<close>

datatype parsed = Malformed | Json json

datatype http_result = NetworkError | Response nat parsed

text \<open>\<open>res.ok\<close> of node-fetch: the status is in the range 200 to 299.\<close>

definition ok :: "nat \<Rightarrow> bool" where
  "ok status = (200 \<le> status \<and> status < 300)"

subsection \<open>The Health Oracle: \<open>isServerRunning\<close>\<close>

text \<open>
  The body of the \<open>try\<close> block. The comparison \<open>data.status === "active"\<close> only decides
  a log line, but reading \<open>data.status\<close> is evaluated and can throw.
\<close>

definition isServerRunning_try :: "http_result \<Rightarrow> exn + bool" where
  "isServerRunning_try r =
     (case r of
        NetworkError \<Rightarrow> Inl FetchError
      | Response status body \<Rightarrow>
          if \<not> ok status then Inr False
          else (case body of
                  Malformed \<Rightarrow> Inl SyntaxError
                | Json data \<Rightarrow>
                    (case get_prop (Some data) (str ''status'') of
                       Inl e \<Rightarrow> Inl e
                     | Inr st \<Rightarrow> Inr True)))"

text \<open>The \<open>catch\<close> block answers \<open>false\<close> to every exception.\<close>

definition isServerRunning :: "http_result \<Rightarrow> bool" where
  "isServerRunning r = (case isServerRunning_try r of Inl e \<Rightarrow> False | Inr b \<Rightarrow> b)"

subsection \<open>The Deployment Controller: \<open>fetchLatestDeployment\<close>, \<open>restartDeployment\<close>\<close>

text \<open>
  Neither wrapper has a \<open>try\<close>, and neither reads the status code. The text of the
  GraphQL request, built by interpolation, is not modelled.
\<close>

definition fetchLatestDeployment :: "http_result \<Rightarrow> exn + js_value" where
  "fetchLatestDeployment r =
     (case r of
        NetworkError \<Rightarrow> Inl FetchError
      | Response status Malformed \<Rightarrow> Inl SyntaxError
      | Response status (Json data) \<Rightarrow>
          (case get_prop (Some data) (str ''errors'') of
             Inl e \<Rightarrow> Inl e
           | Inr errors \<Rightarrow>
               if truthy errors then Inr (Some JNull)
               else
                 (case get_prop (Some data) (str ''data'') of
                    Inl e \<Rightarrow> Inl e
                  | Inr d \<Rightarrow>
                 (case get_prop d (str ''deployments'') of
                    Inl e \<Rightarrow> Inl e
                  | Inr deployments \<Rightarrow>
                 (case get_prop deployments (str ''edges'') of
                    Inl e \<Rightarrow> Inl e
                  | Inr edges \<Rightarrow>
                 (case get_prop edges (str ''length'') of
                    Inl e \<Rightarrow> Inl e
                  | Inr len \<Rightarrow>
                      if \<not> truthy len then Inr (Some JNull)
                      else
                        (case get_prop edges (str ''0'') of
                           Inl e \<Rightarrow> Inl e
                         | Inr edge \<Rightarrow> get_prop edge (str ''node''))))))))"

definition restartDeployment :: "js_value \<Rightarrow> http_result \<Rightarrow> exn + bool" where
  "restartDeployment deploymentId r =
     (case r of
        NetworkError \<Rightarrow> Inl FetchError
      | Response status Malformed \<Rightarrow> Inl SyntaxError
      | Response status (Json data) \<Rightarrow>
          (case get_prop (Some data) (str ''errors'') of
             Inl e \<Rightarrow> Inl e
           | Inr errors \<Rightarrow> if truthy errors then Inr False else Inr True))"

subsection \<open>Start-up\<close>

text \<open>
  \<open>process.env\<close> maps a name to a string or to \<open>undefined\<close>; \<open>!v\<close> holds for \<open>undefined\<close>
  and for the empty string. The module either calls \<open>process.exit(1)\<close> at the check, or
  runs on to \<open>server.listen(PORT)\<close>.
\<close>

type_synonym env = "string \<Rightarrow> string option"

definition PORT :: nat where
  "PORT = 25565"

definition COOLDOWN_MS :: int where
  "COOLDOWN_MS = 60000"

fun env_truthy :: "string option \<Rightarrow> bool" where
  "env_truthy None = False"
| "env_truthy (Some s) = (s \<noteq> [])"

datatype process = Exited int | Serving nat

definition required :: "string list" where
  "required = [''PROJECT_ID'', ''ENVIRONMENT_ID'', ''SERVICE_ID'', ''RAILWAY_API_TOKEN'']"

definition config_missing :: "env \<Rightarrow> bool" where
  "config_missing e =
     (\<not> env_truthy (e ''PROJECT_ID'') \<or> \<not> env_truthy (e ''ENVIRONMENT_ID'')
      \<or> \<not> env_truthy (e ''SERVICE_ID'') \<or> \<not> env_truthy (e ''RAILWAY_API_TOKEN''))"

definition startup :: "env \<Rightarrow> process" where
  "startup e = (if config_missing e then Exited 1 else Serving PORT)"

subsection \<open>The state of the process\<close>

text \<open>
  The two module-level variables, the pending \<open>setTimeout\<close> callbacks (each by the time
  it is due), and per connection: where its handler stands, and what was done to its
  socket. \<open>calls\<close> is a log the program does not keep: every outbound request, with the
  time and the connection it was started for, in the order they were started.
\<close>

datatype task = Armed | AwaitHealth | AwaitDeployment | AwaitRestart js_value | Finished

datatype sock = SockOpen | SockEnded "js_string option"

datatype op = HealthCheck | FetchLatest | Restart js_value

type_synonym call = "int \<times> nat \<times> op"

record world =
  restarting :: bool
  lastWake :: int
  timers :: "int list"
  tasks :: "nat \<Rightarrow> task"
  socks :: "nat \<Rightarrow> sock"
  calls :: "call list"

definition init :: world where
  "init = \<lparr>restarting = False, lastWake = 0, timers = [],
            tasks = (\<lambda>c. Armed), socks = (\<lambda>c. SockOpen), calls = []\<rparr>"

text \<open>The five texts the handler writes; the first code unit of each is the section sign.\<close>

definition msg_already_online :: js_string where
  "msg_already_online = 167 # str ''eServer is already online, please join!'' @ [10]"

definition msg_starting_wait :: js_string where
  "msg_starting_wait = 167 # str ''eServer is starting... please wait.'' @ [10]"

definition msg_no_deployment :: js_string where
  "msg_no_deployment = 167 # str ''cError: No deployment found.'' @ [10]"

definition msg_starting_retry :: js_string where
  "msg_starting_retry = 167 # str ''eServer is starting... please try again in ~30s.'' @ [10]"

definition msg_error_starting :: js_string where
  "msg_error_starting = 167 # str ''cError starting server, try again later.'' @ [10]"

subsection \<open>The token of the first chunk\<close>

text \<open>
  \<open>data.toString("utf8").replace(/[^\w]/g, "")\<close>: the decoded chunk is the input of the
  model; \<open>\w\<close> is a letter, a digit or the underscore of ASCII.
\<close>

definition word_char :: "nat \<Rightarrow> bool" where
  "word_char c = (48 \<le> c \<and> c \<le> 57 \<or> 65 \<le> c \<and> c \<le> 90 \<or> c = 95 \<or> 97 \<le> c \<and> c \<le> 122)"

definition username_of :: "js_string \<Rightarrow> js_string" where
  "username_of text = filter word_char text"

text \<open>\<open>s.includes(m)\<close>: \<open>m\<close> occurs in \<open>s\<close> as a contiguous run.\<close>

fun includes_str :: "js_string \<Rightarrow> js_string \<Rightarrow> bool" where
  "includes_str [] m = (m = [])"
| "includes_str (x # xs) m = (prefix m (x # xs) \<or> includes_str xs m)"

definition MCPingHost :: js_string where
  "MCPingHost = str ''MCPingHost''"

subsection \<open>The connection handler, segment by segment\<close>

text \<open>
  JavaScript runs a handler without interruption from one \<open>await\<close> to the next, so each
  segment is one step of the process, taken at one reading \<open>now\<close> of the clock.
  \<open>finish c out\<close> is \<open>socket.end(out); return\<close> (with \<open>None\<close> for \<open>socket.end()\<close>).
\<close>

definition finish :: "nat \<Rightarrow> js_string option \<Rightarrow> world \<Rightarrow> world" where
  "finish c out w = w\<lparr>tasks := (tasks w)(c := Finished), socks := (socks w)(c := SockEnded out)\<rparr>"

text \<open>
  From the arrival of the chunk to the request \<open>isServerRunning\<close> sends. The listener is
  registered with \<open>once\<close>: a later chunk of the same connection finds none.
\<close>

definition handler_data :: "int \<Rightarrow> nat \<Rightarrow> js_string \<Rightarrow> world \<Rightarrow> world" where
  "handler_data now c text w =
     (if tasks w c \<noteq> Armed then w
      else if username_of text = [] then finish c None w
      else if includes_str (username_of text) MCPingHost then finish c None w
      else w\<lparr>tasks := (tasks w)(c := AwaitHealth), calls := calls w @ [(now, c, HealthCheck)]\<rparr>)"

text \<open>
  From the answer of \<open>isServerRunning\<close> to the request \<open>fetchLatestDeployment\<close> sends:
  the check of the lock and the two assignments are in the same segment.
\<close>

definition handler_health :: "int \<Rightarrow> nat \<Rightarrow> http_result \<Rightarrow> world \<Rightarrow> world" where
  "handler_health now c r w =
     (if tasks w c \<noteq> AwaitHealth then w
      else if isServerRunning r then finish c (Some msg_already_online) w
      else if restarting w \<or> now - lastWake w < COOLDOWN_MS
        then finish c (Some msg_starting_wait) w
      else w\<lparr>restarting := True, lastWake := now,
             tasks := (tasks w)(c := AwaitDeployment),
             calls := calls w @ [(now, c, FetchLatest)]\<rparr>)"

text \<open>
  From the answer of \<open>fetchLatestDeployment\<close> to the request \<open>restartDeployment\<close> sends.
  An exception of the wrapper lands in the handler's \<open>catch\<close>, which is \<open>socket.end()\<close>.
\<close>

definition handler_deployment :: "int \<Rightarrow> nat \<Rightarrow> http_result \<Rightarrow> world \<Rightarrow> world" where
  "handler_deployment now c r w =
     (if tasks w c \<noteq> AwaitDeployment then w
      else
        (case fetchLatestDeployment r of
           Inl e \<Rightarrow> finish c None w
         | Inr deployment \<Rightarrow>
             if \<not> truthy deployment
               then (finish c (Some msg_no_deployment) w)\<lparr>restarting := False\<rparr>
             else
               (case get_prop deployment (str ''id'') of
                  Inl e \<Rightarrow> finish c None w
                | Inr deploymentId \<Rightarrow>
                    w\<lparr>tasks := (tasks w)(c := AwaitRestart deploymentId),
                      calls := calls w @ [(now, c, Restart deploymentId)]\<rparr>)))"

text \<open>
  From the answer of \<open>restartDeployment\<close> to the end of the handler: one of two texts,
  then \<open>setTimeout\<close> with the delay \<open>COOLDOWN_MS\<close>.
\<close>

definition handler_restart :: "int \<Rightarrow> nat \<Rightarrow> http_result \<Rightarrow> world \<Rightarrow> world" where
  "handler_restart now c r w =
     (case tasks w c of
        AwaitRestart deploymentId \<Rightarrow>
          (case restartDeployment deploymentId r of
             Inl e \<Rightarrow> finish c None w
           | Inr success \<Rightarrow>
               (finish c (Some (if success then msg_starting_retry else msg_error_starting)) w)
                 \<lparr>timers := timers w @ [now + COOLDOWN_MS]\<rparr>)
      | _ \<Rightarrow> w)"

text \<open>
  The timer callback, \<open>restarting = false\<close>. Every timer has the same delay, so the
  first in the list is the first due; it does not run before it is due.
\<close>

definition timer_callback :: "int \<Rightarrow> world \<Rightarrow> world" where
  "timer_callback now w =
     (case timers w of
        [] \<Rightarrow> w
      | due # rest \<Rightarrow> if due \<le> now then w\<lparr>restarting := False, timers := rest\<rparr> else w)"

subsection \<open>Runs of the event loop\<close>

text \<open>
  What the event loop can deliver: the first chunk of a connection, the answer to one of
  the three requests of a connection, or a timer. A run is a list of events, each with
  the time it is handled at. An event that nothing waits for changes nothing.
  Times are readings, in milliseconds, of one clock, which stands for \<open>Date.now()\<close> and
  for the clock of the timers; the properties of whole runs are stated for runs whose
  times do not decrease.
\<close>

datatype event =
    Data nat js_string
  | HealthDone nat http_result
  | DeploymentDone nat http_result
  | RestartDone nat http_result
  | TimerFire

fun step :: "int \<Rightarrow> event \<Rightarrow> world \<Rightarrow> world" where
  "step now (Data c text) w = handler_data now c text w"
| "step now (HealthDone c r) w = handler_health now c r w"
| "step now (DeploymentDone c r) w = handler_deployment now c r w"
| "step now (RestartDone c r) w = handler_restart now c r w"
| "step now TimerFire w = timer_callback now w"

fun run :: "(int \<times> event) list \<Rightarrow> world \<Rightarrow> world" where
  "run [] w = w"
| "run ((now, e) # tr) w = run tr (step now e w)"

text \<open>The requests to the Deployment Controller.\<close>

fun is_dc :: "op \<Rightarrow> bool" where
  "is_dc HealthCheck = False"
| "is_dc FetchLatest = True"
| "is_dc (Restart i) = True"

definition dc_calls :: "world \<Rightarrow> (int \<times> nat) list" where
  "dc_calls w = map (\<lambda>(t, c, k). (t, c)) (filter (\<lambda>(t, c, k). is_dc k) (calls w))"

text \<open>The entries into step 3: the requests for the latest deployment.\<close>

definition wake_starts :: "world \<Rightarrow> (int \<times> nat) list" where
  "wake_starts w = map (\<lambda>(t, c, k). (t, c)) (filter (\<lambda>(t, c, k). k = FetchLatest) (calls w))"

subsection \<open>The invariant of the lock\<close>

text \<open>
  A connection is active from the segment in which it takes the lock to the end of its
  handler. A connection has begun once its handler is past the health answer (be it
  ended): only then can a request to the controller be in the log for it.
\<close>

fun active :: "task \<Rightarrow> bool" where
  "active AwaitDeployment = True"
| "active (AwaitRestart i) = True"
| "active Armed = False"
| "active AwaitHealth = False"
| "active Finished = False"

fun begun :: "task \<Rightarrow> bool" where
  "begun Armed = False"
| "begun AwaitHealth = False"
| "begun AwaitDeployment = True"
| "begun (AwaitRestart i) = True"
| "begun Finished = True"

text \<open>
  What holds of the state \<open>w\<close> when the clock has reached \<open>now\<close>, in five parts.
  Every request to the controller was sent in the past, by a connection that has begun.
\<close>

definition sent_past :: "int \<Rightarrow> world \<Rightarrow> bool" where
  "sent_past now w \<longleftrightarrow>
     (\<forall>t c. (t, c) \<in> set (dc_calls w) \<longrightarrow> t \<le> now \<and> begun (tasks w c))"

text \<open>Requests of two connections are \<open>COOLDOWN_MS\<close> apart.\<close>

definition apart :: "world \<Rightarrow> bool" where
  "apart w \<longleftrightarrow>
     (\<forall>t c t' c'. (t, c) \<in> set (dc_calls w) \<longrightarrow> (t', c') \<in> set (dc_calls w) \<longrightarrow> c \<noteq> c' \<longrightarrow>
        t + COOLDOWN_MS \<le> t' \<or> t' + COOLDOWN_MS \<le> t)"

text \<open>
  With the lock free, no timer is pending, no connection is active, and every request
  is no later than \<open>lastWake\<close> or lies \<open>COOLDOWN_MS\<close> in the past.
\<close>

definition free_ok :: "int \<Rightarrow> world \<Rightarrow> bool" where
  "free_ok now w \<longleftrightarrow>
     (\<not> restarting w \<longrightarrow>
        timers w = [] \<and> (\<forall>c. \<not> active (tasks w c)) \<and>
        (\<forall>t c. (t, c) \<in> set (dc_calls w) \<longrightarrow> t \<le> lastWake w \<or> t + COOLDOWN_MS \<le> now))"

text \<open>
  An active connection is the only one, no timer is pending, its own requests are no
  earlier than \<open>lastWake\<close> (and at \<open>lastWake\<close> while it waits for the deployment), those
  of the others \<open>COOLDOWN_MS\<close> earlier.
\<close>

definition active_ok :: "int \<Rightarrow> world \<Rightarrow> bool" where
  "active_ok now w \<longleftrightarrow>
     (\<forall>c. active (tasks w c) \<longrightarrow>
        timers w = [] \<and> lastWake w \<le> now \<and> (\<forall>c'. active (tasks w c') \<longrightarrow> c' = c) \<and>
        (\<forall>t. (t, c) \<in> set (dc_calls w) \<longrightarrow>
           lastWake w \<le> t \<and> (tasks w c = AwaitDeployment \<longrightarrow> t \<le> lastWake w)) \<and>
        (\<forall>t c'. (t, c') \<in> set (dc_calls w) \<longrightarrow> c' \<noteq> c \<longrightarrow> t + COOLDOWN_MS \<le> lastWake w))"

text \<open>A pending timer is the only one, and is due \<open>COOLDOWN_MS\<close> after every request.\<close>

definition timer_ok :: "world \<Rightarrow> bool" where
  "timer_ok w \<longleftrightarrow>
     (\<forall>d ds. timers w = d # ds \<longrightarrow>
        ds = [] \<and> (\<forall>t c. (t, c) \<in> set (dc_calls w) \<longrightarrow> t + COOLDOWN_MS \<le> d))"

definition lock_inv :: "int \<Rightarrow> world \<Rightarrow> bool" where
  "lock_inv now w \<longleftrightarrow> sent_past now w \<and> apart w \<and> free_ok now w \<and> active_ok now w \<and> timer_ok w"

text \<open>A lock that nothing will release: taken, with no timer pending and no connection active.\<close>

definition stuck :: "world \<Rightarrow> bool" where
  "stuck w \<longleftrightarrow> restarting w \<and> timers w = [] \<and> (\<forall>c. \<not> active (tasks w c))"

text \<open>A lock held by one pending timer, due at \<open>d\<close>, with no connection active.\<close>

definition held_until :: "int \<Rightarrow> world \<Rightarrow> bool" where
  "held_until d w \<longleftrightarrow> restarting w \<and> timers w = [d] \<and> (\<forall>c. \<not> active (tasks w c))"

subsection \<open>Scenarios\<close>

text \<open>Two first chunks, and four bodies the controller can answer with.\<close>

definition alice :: js_string where
  "alice = str ''alice''"

definition bob :: js_string where
  "bob = str ''bob''"

definition body_no_deployment :: json where
  "body_no_deployment =
     JObj [(str ''data'', JObj [(str ''deployments'', JObj [(str ''edges'', JArr [])])])]"

definition body_deployment :: json where
  "body_deployment =
     JObj [(str ''data'', JObj [(str ''deployments'', JObj [(str ''edges'',
       JArr [JObj [(str ''node'', JObj [(str ''id'', JStr (str ''d1'')),
                                         (str ''staticUrl'', JStr (str ''mc.example''))])]])])])]"

definition body_restarted :: json where
  "body_restarted = JObj [(str ''data'', JObj [(str ''deploymentRestart'', JBool True)])]"

definition body_errors :: json where
  "body_errors =
     JObj [(str ''errors'', JArr [JObj [(str ''message'', JStr (str ''Not Authorized''))]])]"

text \<open>
  A full wake by connection 1, with connection 2 turned away while it runs; the timer;
  then connection 3, which finds no deployment.
\<close>

definition run_two_wakes :: "(int \<times> event) list" where
  "run_two_wakes =
     [(100000, Data 1 alice), (100004, HealthDone 1 NetworkError),
      (100020, Data 2 bob), (100025, HealthDone 2 (Response 503 Malformed)),
      (100300, DeploymentDone 1 (Response 200 (Json body_deployment))),
      (100900, RestartDone 1 (Response 200 (Json body_restarted))),
      (160900, TimerFire),
      (160950, Data 3 alice), (160960, HealthDone 3 NetworkError),
      (161000, DeploymentDone 3 (Response 200 (Json body_no_deployment)))]"

text \<open>Connection 1 finds no deployment; connection 2 comes right after.\<close>

definition run_no_deployment :: "(int \<times> event) list" where
  "run_no_deployment =
     [(100000, Data 1 alice), (100004, HealthDone 1 NetworkError),
      (100300, DeploymentDone 1 (Response 200 (Json body_no_deployment))),
      (100301, Data 2 bob), (100305, HealthDone 2 NetworkError)]"

text \<open>Connection 1 up to its restart request, which is then lost on the network.\<close>

definition run_to_restart :: "(int \<times> event) list" where
  "run_to_restart =
     [(100000, Data 1 alice), (100004, HealthDone 1 NetworkError),
      (100300, DeploymentDone 1 (Response 200 (Json body_deployment)))]"

text \<open>
  The first chunk of connection 2 arrives while connection 1 holds the lock; its health
  request is answered more than a minute later, after the timer has released the lock.
\<close>

definition run_slow_health :: "(int \<times> event) list" where
  "run_slow_health =
     [(100000, Data 1 alice), (100004, HealthDone 1 NetworkError),
      (100020, Data 2 bob),
      (100300, DeploymentDone 1 (Response 200 (Json body_deployment))),
      (100900, RestartDone 1 (Response 200 (Json body_restarted))),
      (160900, TimerFire),
      (161000, HealthDone 2 NetworkError)]"

text \<open>
  Connection 1 finds no deployment; the first chunk of connection 2 arrives right after,
  and its health request is answered a minute after connection 1 took the lock.
\<close>

definition run_slow_second :: "(int \<times> event) list" where
  "run_slow_second =
     [(100000, Data 1 alice), (100004, HealthDone 1 NetworkError),
      (100300, DeploymentDone 1 (Response 200 (Json body_no_deployment))),
      (100301, Data 2 bob), (160004, HealthDone 2 NetworkError)]"

text \<open>An environment with the four values set, the token to the empty string.\<close>

definition env_empty_token :: env where
  "env_empty_token =
     map_of [(''PROJECT_ID'', ''p1''), (''ENVIRONMENT_ID'', ''e1''), (''SERVICE_ID'', ''s1''),
             (''RAILWAY_API_TOKEN'', [])]"

definition env_complete :: env where
  "env_complete =
     map_of [(''PROJECT_ID'', ''p1''), (''ENVIRONMENT_ID'', ''e1''), (''SERVICE_ID'', ''s1''),
             (''RAILWAY_API_TOKEN'', ''t1'')]"

section \<open>Properties\<close>

subsection \<open>The invariant is kept by every step\<close>

lemma COOLDOWN_pos: "0 \<le> COOLDOWN_MS" by (simp add: COOLDOWN_MS_def)

lemma dc_calls_finish [simp]: "dc_calls (finish c out w) = dc_calls w"
  by (simp add: dc_calls_def finish_def)

lemma parts:
  assumes "lock_inv now w"
  shows "sent_past now w" "apart w" "free_ok now w" "active_ok now w" "timer_ok w"
  using assms by (simp_all add: lock_inv_def)

lemma sent_pastD:
  "sent_past now w \<Longrightarrow> (t, c) \<in> set (dc_calls w) \<Longrightarrow> t \<le> now"
  "sent_past now w \<Longrightarrow> (t, c) \<in> set (dc_calls w) \<Longrightarrow> begun (tasks w c)"
  unfolding sent_past_def by blast+

lemma apartD:
  "apart w \<Longrightarrow> (t, c) \<in> set (dc_calls w) \<Longrightarrow> (t', c') \<in> set (dc_calls w) \<Longrightarrow> c \<noteq> c'
     \<Longrightarrow> t + COOLDOWN_MS \<le> t' \<or> t' + COOLDOWN_MS \<le> t"
  unfolding apart_def by blast

lemma free_okD:
  "free_ok now w \<Longrightarrow> \<not> restarting w \<Longrightarrow> timers w = []"
  "free_ok now w \<Longrightarrow> \<not> restarting w \<Longrightarrow> \<not> active (tasks w c)"
  "free_ok now w \<Longrightarrow> \<not> restarting w \<Longrightarrow> (t, c) \<in> set (dc_calls w)
     \<Longrightarrow> t \<le> lastWake w \<or> t + COOLDOWN_MS \<le> now"
  unfolding free_ok_def by blast+

lemma active_okD:
  "active_ok now w \<Longrightarrow> active (tasks w c) \<Longrightarrow> timers w = []"
  "active_ok now w \<Longrightarrow> active (tasks w c) \<Longrightarrow> lastWake w \<le> now"
  "active_ok now w \<Longrightarrow> active (tasks w c) \<Longrightarrow> active (tasks w c') \<Longrightarrow> c' = c"
  "active_ok now w \<Longrightarrow> active (tasks w c) \<Longrightarrow> (t, c) \<in> set (dc_calls w) \<Longrightarrow> lastWake w \<le> t"
  "active_ok now w \<Longrightarrow> active (tasks w c) \<Longrightarrow> (t, c') \<in> set (dc_calls w) \<Longrightarrow> c' \<noteq> c
     \<Longrightarrow> t + COOLDOWN_MS \<le> lastWake w"
  unfolding active_ok_def by blast+

lemma active_ok_waiting:
  "active_ok now w \<Longrightarrow> tasks w c = AwaitDeployment \<Longrightarrow> (t, c) \<in> set (dc_calls w) \<Longrightarrow> t \<le> lastWake w"
  unfolding active_ok_def by (metis active.simps(1))

lemma timer_okD:
  "timer_ok w \<Longrightarrow> timers w = d # ds \<Longrightarrow> ds = []"
  "timer_ok w \<Longrightarrow> timers w = d # ds \<Longrightarrow> (t, c) \<in> set (dc_calls w) \<Longrightarrow> t + COOLDOWN_MS \<le> d"
  unfolding timer_ok_def by blast+

lemma active_locked: "free_ok now w \<Longrightarrow> active (tasks w c) \<Longrightarrow> restarting w"
  using free_okD(2) by blast

text \<open>The early release of the lock, on the path with no deployment.\<close>

lemma inv_release:
  assumes "lock_inv now w" and c: "tasks w c = AwaitDeployment"
  shows "lock_inv now ((finish c out w)\<lparr>restarting := False\<rparr>)"
proof -
  note p = parts [OF assms(1)]
  let ?w = "(finish c out w)\<lparr>restarting := False\<rparr>"
  have dc: "dc_calls ?w = dc_calls w" by (simp add: dc_calls_def finish_def)
  have a: "active (tasks w c)" using c by simp
  have only: "\<And>c'. active (tasks w c') \<Longrightarrow> c' = c"
    using active_okD(3) [OF p(4) a] .
  have tm: "timers w = []" using active_okD(1) [OF p(4) a] .
  have own: "\<And>t. (t, c) \<in> set (dc_calls w) \<Longrightarrow> t \<le> lastWake w"
    using active_ok_waiting [OF p(4) c] .
  have oth: "\<And>t c'. (t, c') \<in> set (dc_calls w) \<Longrightarrow> c' \<noteq> c \<Longrightarrow> t + COOLDOWN_MS \<le> lastWake w"
    using active_okD(5) [OF p(4) a] .
  have na: "\<And>c'. \<not> active (tasks ?w c')"
    using only by (auto simp: finish_def)
  have 1: "sent_past now ?w"
    using p(1) unfolding sent_past_def dc by (simp add: finish_def)
  have 2: "apart ?w" using p(2) unfolding apart_def dc .
  have 3: "free_ok now ?w"
    unfolding free_ok_def dc
  proof (intro impI conjI allI)
    show "timers ?w = []" using tm by (simp add: finish_def)
    show "\<not> active (tasks ?w c')" for c' by (rule na)
    show "t \<le> lastWake ?w \<or> t + COOLDOWN_MS \<le> now" if "(t, c') \<in> set (dc_calls w)" for t c'
    proof (cases "c' = c")
      case True with own that show ?thesis by (simp add: finish_def)
    next
      case False
      with oth that have "t + COOLDOWN_MS \<le> lastWake w" by blast
      with COOLDOWN_pos show ?thesis by (simp add: finish_def)
    qed
  qed
  have 4: "active_ok now ?w" unfolding active_ok_def using na by blast
  have 5: "timer_ok ?w" unfolding timer_ok_def using tm by (simp add: finish_def)
  from 1 2 3 4 5 show ?thesis by (simp add: lock_inv_def)
qed

text \<open>Taking the lock.\<close>

lemma inv_take:
  assumes "lock_inv now w" and c: "tasks w c = AwaitHealth" and fr: "\<not> restarting w"
    and cd: "COOLDOWN_MS \<le> now' - lastWake w" and le: "now \<le> now'"
  shows "lock_inv now' (w\<lparr>restarting := True, lastWake := now',
             tasks := (tasks w)(c := AwaitDeployment),
             calls := calls w @ [(now', c, FetchLatest)]\<rparr>)"
proof -
  note p = parts [OF assms(1)]
  let ?w = "w\<lparr>restarting := True, lastWake := now',
             tasks := (tasks w)(c := AwaitDeployment),
             calls := calls w @ [(now', c, FetchLatest)]\<rparr>"
  have dc: "dc_calls ?w = dc_calls w @ [(now', c)]" by (simp add: dc_calls_def)
  have tm: "timers w = []" using free_okD(1) [OF p(3) fr] .
  have na: "\<And>c'. \<not> active (tasks w c')" using free_okD(2) [OF p(3) fr] .
  have old': "t + COOLDOWN_MS \<le> now'" if "(t, c') \<in> set (dc_calls w)" for t c'
    using free_okD(3) [OF p(3) fr that] cd le by linarith
  have fresh: "(t, c) \<notin> set (dc_calls w)" for t
    using sent_pastD(2) [OF p(1), of t c] c by auto
  have 1: "sent_past now' ?w"
    unfolding sent_past_def dc
  proof (intro allI impI)
    fix t c' assume "(t, c') \<in> set (dc_calls w @ [(now', c)])"
    then consider "(t, c') \<in> set (dc_calls w)" | "t = now'" "c' = c" by auto
    then show "t \<le> now' \<and> begun (tasks ?w c')"
    proof cases
      case 1
      from sent_pastD [OF p(1) 1] le fresh 1 show ?thesis by auto
    next
      case 2 then show ?thesis by simp
    qed
  qed
  have 2: "apart ?w"
    unfolding apart_def dc
  proof (intro allI impI)
    fix t c1 t' c2
    assume a: "(t, c1) \<in> set (dc_calls w @ [(now', c)])"
      and b: "(t', c2) \<in> set (dc_calls w @ [(now', c)])" and ne: "c1 \<noteq> c2"
    from a consider "(t, c1) \<in> set (dc_calls w)" | "t = now'" "c1 = c" by auto
    then show "t + COOLDOWN_MS \<le> t' \<or> t' + COOLDOWN_MS \<le> t"
    proof cases
      case 1
      from b consider "(t', c2) \<in> set (dc_calls w)" | "t' = now'" "c2 = c" by auto
      then show ?thesis
      proof cases
        case 1 with \<open>(t, c1) \<in> set (dc_calls w)\<close> ne apartD [OF p(2)] show ?thesis by blast
      next
        case 2 with old' [OF \<open>(t, c1) \<in> set (dc_calls w)\<close>] show ?thesis by simp
      qed
    next
      case 2
      with b ne have "(t', c2) \<in> set (dc_calls w)" by auto
      from old' [OF this] 2 show ?thesis by simp
    qed
  qed
  have 3: "free_ok now' ?w" by (simp add: free_ok_def)
  have 4: "active_ok now' ?w"
    unfolding active_ok_def dc
  proof (intro allI impI)
    fix c' assume "active (tasks ?w c')"
    with na have [simp]: "c' = c" by (auto split: if_splits)
    show "timers ?w = [] \<and> lastWake ?w \<le> now' \<and> (\<forall>c'a. active (tasks ?w c'a) \<longrightarrow> c'a = c') \<and>
        (\<forall>t. (t, c') \<in> set (dc_calls w @ [(now', c)]) \<longrightarrow>
           lastWake ?w \<le> t \<and> (tasks ?w c' = AwaitDeployment \<longrightarrow> t \<le> lastWake ?w)) \<and>
        (\<forall>t c'a. (t, c'a) \<in> set (dc_calls w @ [(now', c)]) \<longrightarrow> c'a \<noteq> c' \<longrightarrow> t + COOLDOWN_MS \<le> lastWake ?w)"
      using tm na fresh old' by (auto split: if_splits)
  qed
  have 5: "timer_ok ?w" using tm by (simp add: timer_ok_def)
  from 1 2 3 4 5 show ?thesis by (simp add: lock_inv_def)
qed


lemma inv_mono: "lock_inv now w \<Longrightarrow> now \<le> now' \<Longrightarrow> lock_inv now' w"
  unfolding lock_inv_def sent_past_def free_ok_def active_ok_def
  apply (intro conjI)
      apply (meson order_trans)
     apply simp
    apply (meson order_trans)
   apply (meson order_trans)
  apply simp
  done

text \<open>Closing a socket at the end of a handler, the lock left as it is.\<close>

lemma inv_finish:
  assumes "lock_inv now w"
  shows "lock_inv now (finish c out w)"
proof -
  note p = parts [OF assms]
  have 1: "sent_past now (finish c out w)"
    using p(1) by (simp add: sent_past_def) (simp add: finish_def)
  have 2: "apart (finish c out w)"
    using p(2) by (simp add: apart_def)
  have 3: "free_ok now (finish c out w)"
    using p(3) by (simp add: free_ok_def) (simp add: finish_def)
  have 4: "active_ok now (finish c out w)"
    using p(4) by (simp add: active_ok_def) (auto simp add: finish_def)
  have 5: "timer_ok (finish c out w)"
    using p(5) by (simp add: timer_ok_def) (simp add: finish_def)
  from 1 2 3 4 5 show ?thesis by (simp add: lock_inv_def)
qed

text \<open>Sending the health request.\<close>

lemma inv_health_call:
  assumes "lock_inv now w" and c: "tasks w c = Armed"
  shows "lock_inv now (w\<lparr>tasks := (tasks w)(c := AwaitHealth), calls := calls w @ [(t, c, HealthCheck)]\<rparr>)"
proof -
  note p = parts [OF assms(1)]
  let ?w = "w\<lparr>tasks := (tasks w)(c := AwaitHealth), calls := calls w @ [(t, c, HealthCheck)]\<rparr>"
  have dc: "dc_calls ?w = dc_calls w" by (simp add: dc_calls_def)
  have fresh: "(t', c) \<notin> set (dc_calls w)" for t'
    using sent_pastD(2) [OF p(1), of t' c] c by auto
  have act: "active (tasks ?w c') = active (tasks w c')" for c'
    using c by simp
  have 1: "sent_past now ?w"
    unfolding sent_past_def dc using sent_pastD [OF p(1)] fresh by auto
  have 2: "apart ?w" using p(2) unfolding apart_def dc .
  have 3: "free_ok now ?w"
    using p(3) unfolding free_ok_def dc act by simp
  have 4: "active_ok now ?w"
    using p(4) c unfolding active_ok_def dc act by simp
  have 5: "timer_ok ?w" using p(5) unfolding timer_ok_def dc by simp
  from 1 2 3 4 5 show ?thesis by (simp add: lock_inv_def)
qed

text \<open>Sending the restart request.\<close>

lemma inv_restart_call:
  assumes "lock_inv now w" and c: "tasks w c = AwaitDeployment" and le: "now \<le> now'"
  shows "lock_inv now' (w\<lparr>tasks := (tasks w)(c := AwaitRestart i),
                           calls := calls w @ [(now', c, Restart i)]\<rparr>)"
proof -
  note p = parts [OF assms(1)]
  let ?w = "w\<lparr>tasks := (tasks w)(c := AwaitRestart i), calls := calls w @ [(now', c, Restart i)]\<rparr>"
  have dc: "dc_calls ?w = dc_calls w @ [(now', c)]" by (simp add: dc_calls_def)
  have a: "active (tasks w c)" using c by simp
  have lk: "restarting w" using active_locked [OF p(3) a] .
  have act: "active (tasks ?w c') = active (tasks w c')" for c'
    using c by simp
  have only: "\<And>c'. active (tasks w c') \<Longrightarrow> c' = c" using active_okD(3) [OF p(4) a] .
  have tm: "timers w = []" using active_okD(1) [OF p(4) a] .
  have lw: "lastWake w \<le> now'" using active_okD(2) [OF p(4) a] le by simp
  have own: "\<And>t. (t, c) \<in> set (dc_calls w) \<Longrightarrow> lastWake w \<le> t" using active_okD(4) [OF p(4) a] .
  have oth: "\<And>t c'. (t, c') \<in> set (dc_calls w) \<Longrightarrow> c' \<noteq> c \<Longrightarrow> t + COOLDOWN_MS \<le> lastWake w"
    using active_okD(5) [OF p(4) a] .
  have 1: "sent_past now' ?w"
    unfolding sent_past_def dc
  proof (intro allI impI)
    fix t c' assume "(t, c') \<in> set (dc_calls w @ [(now', c)])"
    then consider "(t, c') \<in> set (dc_calls w)" | "t = now'" "c' = c" by auto
    then show "t \<le> now' \<and> begun (tasks ?w c')"
    proof cases
      case 1
      from sent_pastD [OF p(1) 1] le show ?thesis by auto
    next
      case 2 then show ?thesis by simp
    qed
  qed
  have 2: "apart ?w"
    unfolding apart_def dc
  proof (intro allI impI)
    fix t c1 t' c2
    assume x: "(t, c1) \<in> set (dc_calls w @ [(now', c)])"
      and y: "(t', c2) \<in> set (dc_calls w @ [(now', c)])" and ne: "c1 \<noteq> c2"
    from x consider "(t, c1) \<in> set (dc_calls w)" | "t = now'" "c1 = c" by auto
    then show "t + COOLDOWN_MS \<le> t' \<or> t' + COOLDOWN_MS \<le> t"
    proof cases
      case 1
      from y consider "(t', c2) \<in> set (dc_calls w)" | "t' = now'" "c2 = c" by auto
      then show ?thesis
      proof cases
        case 1 with \<open>(t, c1) \<in> set (dc_calls w)\<close> ne apartD [OF p(2)] show ?thesis by blast
      next
        case 2
        with ne oth [OF \<open>(t, c1) \<in> set (dc_calls w)\<close>] lw show ?thesis by simp
      qed
    next
      case 2
      with y ne have "(t', c2) \<in> set (dc_calls w)" "c2 \<noteq> c" by auto
      from oth [OF this] lw 2 show ?thesis by simp
    qed
  qed
  have 3: "free_ok now' ?w" using lk by (simp add: free_ok_def)
  have 4: "active_ok now' ?w"
    unfolding active_ok_def dc act
  proof (intro allI impI)
    fix c' assume "active (tasks w c')"
    with only have [simp]: "c' = c" by simp
    show "timers ?w = [] \<and> lastWake ?w \<le> now' \<and> (\<forall>c'a. active (tasks w c'a) \<longrightarrow> c'a = c') \<and>
        (\<forall>t. (t, c') \<in> set (dc_calls w @ [(now', c)]) \<longrightarrow>
           lastWake ?w \<le> t \<and> (tasks ?w c' = AwaitDeployment \<longrightarrow> t \<le> lastWake ?w)) \<and>
        (\<forall>t c'a. (t, c'a) \<in> set (dc_calls w @ [(now', c)]) \<longrightarrow> c'a \<noteq> c' \<longrightarrow> t + COOLDOWN_MS \<le> lastWake ?w)"
      using tm only lw own oth by auto
  qed
  have 5: "timer_ok ?w" using tm by (simp add: timer_ok_def)
  from 1 2 3 4 5 show ?thesis by (simp add: lock_inv_def)
qed

text \<open>Arming the timer at the end of the handler.\<close>

lemma inv_arm:
  assumes "lock_inv now w" and c: "tasks w c = AwaitRestart i" and le: "now \<le> now'"
  shows "lock_inv now' ((finish c out w)\<lparr>timers := timers w @ [now' + COOLDOWN_MS]\<rparr>)"
proof -
  note p = parts [OF assms(1)]
  let ?w = "(finish c out w)\<lparr>timers := timers w @ [now' + COOLDOWN_MS]\<rparr>"
  have dc: "dc_calls ?w = dc_calls w" by (simp add: dc_calls_def finish_def)
  have a: "active (tasks w c)" using c by simp
  have lk: "restarting w" using active_locked [OF p(3) a] .
  have only: "\<And>c'. active (tasks w c') \<Longrightarrow> c' = c" using active_okD(3) [OF p(4) a] .
  have tm: "timers w = []" using active_okD(1) [OF p(4) a] .
  have na: "\<And>c'. \<not> active (tasks ?w c')"
    using only by (auto simp: finish_def)
  have 1: "sent_past now' ?w"
    unfolding sent_past_def dc using sent_pastD [OF p(1)] le by (fastforce simp: finish_def)
  have 2: "apart ?w" using p(2) unfolding apart_def dc .
  have 3: "free_ok now' ?w" using lk by (simp add: free_ok_def finish_def)
  have 4: "active_ok now' ?w" unfolding active_ok_def using na by blast
  have 5: "timer_ok ?w"
    unfolding timer_ok_def dc using tm sent_pastD(1) [OF p(1)] le by (fastforce simp: finish_def)
  from 1 2 3 4 5 show ?thesis by (simp add: lock_inv_def)
qed

text \<open>The timer callback.\<close>

lemma inv_fire:
  assumes "lock_inv now w" and tm: "timers w = d # ds" and due: "d \<le> now'" and le: "now \<le> now'"
  shows "lock_inv now' (w\<lparr>restarting := False, timers := ds\<rparr>)"
proof -
  note p = parts [OF assms(1)]
  let ?w = "w\<lparr>restarting := False, timers := ds\<rparr>"
  have dc: "dc_calls ?w = dc_calls w" by (simp add: dc_calls_def)
  have ds: "ds = []" using timer_okD(1) [OF p(5) tm] .
  have na: "\<not> active (tasks w c')" for c'
    using active_okD(1) [OF p(4), of c'] tm by auto
  have old: "t + COOLDOWN_MS \<le> now'" if "(t, c') \<in> set (dc_calls w)" for t c'
    using timer_okD(2) [OF p(5) tm that] due by simp
  have 1: "sent_past now' ?w"
    unfolding sent_past_def dc using sent_pastD [OF p(1)] le by fastforce
  have 2: "apart ?w" using p(2) unfolding apart_def dc .
  have 3: "free_ok now' ?w" unfolding free_ok_def dc using ds na old by simp
  have 4: "active_ok now' ?w" unfolding active_ok_def using na by simp
  have 5: "timer_ok ?w" using ds by (simp add: timer_ok_def)
  from 1 2 3 4 5 show ?thesis by (simp add: lock_inv_def)
qed


text \<open>The five kinds of step, and runs.\<close>

lemma inv_handler_data:
  "lock_inv now w \<Longrightarrow> lock_inv now (handler_data t c text w)"
  unfolding handler_data_def by (simp add: inv_finish inv_health_call)

lemma inv_handler_health:
  "lock_inv now w \<Longrightarrow> now \<le> now' \<Longrightarrow> lock_inv now' (handler_health now' c r w)"
  unfolding handler_health_def
  by (auto intro: inv_mono inv_finish inv_take [where now = now])

lemma inv_handler_deployment:
  "lock_inv now w \<Longrightarrow> now \<le> now' \<Longrightarrow> lock_inv now' (handler_deployment now' c r w)"
  unfolding handler_deployment_def
  by (auto split: sum.splits intro: inv_mono inv_finish inv_release inv_restart_call [where now = now])

lemma inv_handler_restart:
  "lock_inv now w \<Longrightarrow> now \<le> now' \<Longrightarrow> lock_inv now' (handler_restart now' c r w)"
  unfolding handler_restart_def
  by (auto split: sum.splits task.splits intro: inv_mono inv_finish inv_arm [where now = now])

lemma inv_timer_callback:
  "lock_inv now w \<Longrightarrow> now \<le> now' \<Longrightarrow> lock_inv now' (timer_callback now' w)"
  unfolding timer_callback_def
  by (auto split: list.splits intro: inv_mono inv_fire [where now = now])

lemma inv_step:
  "lock_inv now w \<Longrightarrow> now \<le> now' \<Longrightarrow> lock_inv now' (step now' e w)"
  by (cases e) (simp_all add: inv_handler_data inv_mono inv_handler_health inv_handler_deployment
      inv_handler_restart inv_timer_callback)

lemma inv_run:
  "lock_inv now w \<Longrightarrow> sorted (now # map fst tr) \<Longrightarrow> \<exists>now'. lock_inv now' (run tr w)"
proof (induction tr arbitrary: now w)
  case Nil
  then show ?case by auto
next
  case (Cons a tr)
  obtain t e where a: "a = (t, e)" by (cases a)
  from Cons.prems a have "now \<le> t" "sorted (t # map fst tr)" by auto
  with Cons.prems(1) have "lock_inv t (step t e w)" "sorted (t # map fst tr)"
    by (auto intro: inv_step)
  from Cons.IH [OF this] a show ?case by simp
qed

lemma inv_init: "lock_inv now init"
  by (simp add: lock_inv_def sent_past_def apart_def free_ok_def active_ok_def timer_ok_def
      init_def dc_calls_def)

lemma inv_reachable:
  assumes "sorted (map fst tr)"
  shows "\<exists>now. lock_inv now (run tr init)"
proof (cases tr)
  case Nil
  then show ?thesis using inv_init by auto
next
  case (Cons a tr')
  have "lock_inv (fst a) init" by (rule inv_init)
  moreover have "sorted (fst a # map fst tr)" using assms Cons by auto
  ultimately show ?thesis by (rule inv_run)
qed


subsection \<open>Evaluating a run\<close>

lemmas eval_defs = init_def handler_data_def handler_health_def handler_deployment_def
  handler_restart_def timer_callback_def finish_def username_of_def word_char_def MCPingHost_def
  str_def isServerRunning_def isServerRunning_try_def ok_def fetchLatestDeployment_def
  restartDeployment_def COOLDOWN_MS_def dc_calls_def wake_starts_def alice_def bob_def
  body_no_deployment_def body_deployment_def body_restarted_def body_errors_def

subsection \<open>One wake per cooldown\<close>

text \<open>A step taken while the lock is held, or within the cooldown, starts no wake.\<close>

lemma wake_starts_step:
  "restarting w \<or> now - lastWake w < COOLDOWN_MS \<Longrightarrow> wake_starts (step now e w) = wake_starts w"
  by (cases e)
    (auto simp: wake_starts_def handler_data_def handler_health_def handler_deployment_def
      handler_restart_def timer_callback_def finish_def
      split: sum.splits task.splits list.splits)

text \<open>
  C1, amended. In every run from the initial state whose events are handled at
  non-decreasing times, requests to the Deployment Controller made for two different
  connections are at least \<open>COOLDOWN_MS\<close> apart: no window of that length holds the
  requests of two wakes. And from any state reached, a connection whose check of the
  lock (the segment that follows its health answer) runs while \<open>restarting\<close> is true,
  or less than \<open>COOLDOWN_MS\<close> after \<open>lastWake\<close>, sends no request for the latest
  deployment; nor does any other event handled then. What counts is the time of the
  check, not the time at which the first chunk arrived.
\<close>

theorem one_wake_per_cooldown:
  assumes "sorted (map fst tr)"
  shows "(\<forall>t c t' c'. (t, c) \<in> set (dc_calls (run tr init)) \<longrightarrow>
            (t', c') \<in> set (dc_calls (run tr init)) \<longrightarrow> c \<noteq> c' \<longrightarrow>
            t + COOLDOWN_MS \<le> t' \<or> t' + COOLDOWN_MS \<le> t)
       \<and> (\<forall>now e. restarting (run tr init) \<or> now - lastWake (run tr init) < COOLDOWN_MS \<longrightarrow>
            wake_starts (step now e (run tr init)) = wake_starts (run tr init))"
proof -
  from inv_reachable [OF assms] obtain now where "lock_inv now (run tr init)" ..
  then have "apart (run tr init)" by (rule parts)
  then show ?thesis unfolding apart_def using wake_starts_step by blast
qed

text \<open>
  C1, amended, on a run with two wakes, the second starting 60660 ms after the restart
  request of the first, and on a check of the lock made while it is held.
\<close>

theorem one_wake_per_cooldown_witness:
  "sorted (map fst run_two_wakes)
   \<and> dc_calls (run run_two_wakes init) = [(100004, 1), (100300, 1), (160960, 3)]
   \<and> ((100300 :: int) + COOLDOWN_MS \<le> 160960 \<or> (160960 :: int) + COOLDOWN_MS \<le> 100300)
   \<and> sorted (map fst (run_to_restart @ [(100400, Data 2 bob)]))
   \<and> restarting (run (run_to_restart @ [(100400, Data 2 bob)]) init)
   \<and> wake_starts (step 100410 (HealthDone 2 NetworkError)
         (run (run_to_restart @ [(100400, Data 2 bob)]) init))
       = wake_starts (run (run_to_restart @ [(100400, Data 2 bob)]) init)"
proof -
  have s: "sorted (map fst run_two_wakes)" by (simp add: run_two_wakes_def)
  have d: "dc_calls (run run_two_wakes init) = [(100004, 1), (100300, 1), (160960, 3)]"
    by (simp add: run_two_wakes_def eval_defs)
  have "(100300, 1) \<in> set (dc_calls (run run_two_wakes init))"
    and "(160960, 3) \<in> set (dc_calls (run run_two_wakes init))" and "(1 :: nat) \<noteq> 3"
    by (simp_all add: d)
  with one_wake_per_cooldown [OF s]
  have a: "(100300 :: int) + COOLDOWN_MS \<le> 160960 \<or> (160960 :: int) + COOLDOWN_MS \<le> 100300"
    by blast
  let ?tr = "run_to_restart @ [(100400, Data 2 bob)]"
  have s': "sorted (map fst ?tr)" by (simp add: run_to_restart_def)
  have l: "restarting (run ?tr init)" by (simp add: run_to_restart_def eval_defs)
  with one_wake_per_cooldown [OF s']
  have b: "wake_starts (step 100410 (HealthDone 2 NetworkError) (run ?tr init))
      = wake_starts (run ?tr init)"
    by blast
  from s d a s' l b show ?thesis by blast
qed

text \<open>
  C1 as first stated fails: the first chunk of connection 2 arrives at 100020, while
  \<open>restarting\<close> is true and 16 ms after connection 1 took the lock, and connection 2
  still sends a request for the latest deployment, at 161000, when its health request
  is answered after the timer has fired.
\<close>

theorem slow_health_answer_passes_lock:
  "restarting (run (take 2 run_slow_health) init)
   \<and> lastWake (run (take 2 run_slow_health) init) = 100004
   \<and> (100020 :: int) - 100004 < COOLDOWN_MS
   \<and> tasks (run (take 3 run_slow_health) init) 2 = AwaitHealth
   \<and> restarting (run (take 3 run_slow_health) init)
   \<and> dc_calls (run run_slow_health init) = [(100004, 1), (100300, 1), (161000, 2)]"
  by (simp add: run_slow_health_def eval_defs)

subsection \<open>The path with no deployment\<close>

text \<open>
  C2, amended. When \<open>fetchLatestDeployment\<close> answers with a falsy value, the same step
  sets \<open>restarting\<close> to false, arms no timer, and writes the "No deployment found" text.
  A second connection that is not a probe, checked afterwards with the server still
  down, sends a request for the latest deployment if at least \<open>COOLDOWN_MS\<close> has passed
  since \<open>lastWake\<close>; if less has passed it is told to wait and starts no wake.
\<close>

theorem no_deployment_frees_lock_not_cooldown:
  assumes "tasks w a = AwaitDeployment" and "fetchLatestDeployment rd = Inr v" and "\<not> truthy v"
    and "tasks w b = Armed" and "username_of text \<noteq> []"
    and "\<not> includes_str (username_of text) MCPingHost" and "\<not> isServerRunning rb"
  shows "\<not> restarting (step t1 (DeploymentDone a rd) w)
     \<and> timers (step t1 (DeploymentDone a rd) w) = timers w
     \<and> socks (step t1 (DeploymentDone a rd) w) a = SockEnded (Some msg_no_deployment)
     \<and> (COOLDOWN_MS \<le> t3 - lastWake w \<longrightarrow>
          wake_starts (run [(t2, Data b text), (t3, HealthDone b rb)] (step t1 (DeploymentDone a rd) w))
            = wake_starts w @ [(t3, b)])
     \<and> (t3 - lastWake w < COOLDOWN_MS \<longrightarrow>
          socks (run [(t2, Data b text), (t3, HealthDone b rb)] (step t1 (DeploymentDone a rd) w)) b
            = SockEnded (Some msg_starting_wait)
          \<and> wake_starts (run [(t2, Data b text), (t3, HealthDone b rb)] (step t1 (DeploymentDone a rd) w))
            = wake_starts w)"
proof -
  from assms(1,4) have ne: "a \<noteq> b" by auto
  let ?w1 = "handler_deployment t1 a rd w"
  have w1: "?w1 = (finish a (Some msg_no_deployment) w)\<lparr>restarting := False\<rparr>"
    using assms(1-3) by (simp add: handler_deployment_def)
  have b1: "tasks ?w1 b = Armed"
    using assms(4) ne by (simp add: w1 finish_def)
  have w2: "handler_data t2 b text ?w1
      = ?w1\<lparr>tasks := (tasks ?w1)(b := AwaitHealth), calls := calls ?w1 @ [(t2, b, HealthCheck)]\<rparr>"
    using b1 assms(5,6) by (simp add: handler_data_def)
  have lw: "lastWake ?w1 = lastWake w" and ca: "calls ?w1 = calls w" and tm: "timers ?w1 = timers w"
    and re: "\<not> restarting ?w1" and so: "socks ?w1 a = SockEnded (Some msg_no_deployment)"
    by (simp_all add: w1 finish_def)
  show ?thesis
    using assms(7) re
    by (simp add: w2 handler_health_def lw ca tm so wake_starts_def finish_def)
qed

text \<open>C2, amended, on a run: the second connection is checked 60000 ms after the first.\<close>

theorem no_deployment_frees_lock_not_cooldown_witness:
  "tasks (run (take 2 run_no_deployment) init) 1 = AwaitDeployment
   \<and> fetchLatestDeployment (Response 200 (Json body_no_deployment)) = Inr (Some JNull)
   \<and> \<not> truthy (Some JNull)
   \<and> tasks (run (take 2 run_no_deployment) init) 2 = Armed
   \<and> username_of bob \<noteq> [] \<and> \<not> includes_str (username_of bob) MCPingHost
   \<and> \<not> isServerRunning NetworkError
   \<and> lastWake (run (take 2 run_no_deployment) init) = 100004
   \<and> COOLDOWN_MS \<le> 160004 - 100004
   \<and> \<not> restarting (step 100300 (DeploymentDone 1 (Response 200 (Json body_no_deployment)))
        (run (take 2 run_no_deployment) init))
   \<and> wake_starts (run [(100301, Data 2 bob), (160004, HealthDone 2 NetworkError)]
        (step 100300 (DeploymentDone 1 (Response 200 (Json body_no_deployment)))
           (run (take 2 run_no_deployment) init)))
      = [(100004, 1), (160004, 2)]
   \<and> (160003 :: int) - 100004 < COOLDOWN_MS
   \<and> socks (run [(100301, Data 2 bob), (160003, HealthDone 2 NetworkError)]
        (step 100300 (DeploymentDone 1 (Response 200 (Json body_no_deployment)))
           (run (take 2 run_no_deployment) init))) 2
      = SockEnded (Some msg_starting_wait)
   \<and> wake_starts (run [(100301, Data 2 bob), (160003, HealthDone 2 NetworkError)]
        (step 100300 (DeploymentDone 1 (Response 200 (Json body_no_deployment)))
           (run (take 2 run_no_deployment) init)))
      = [(100004, 1)]"
proof -
  let ?w = "run (take 2 run_no_deployment) init"
  let ?rd = "Response 200 (Json body_no_deployment)"
  have a: "tasks ?w 1 = AwaitDeployment" and b: "tasks ?w 2 = Armed"
    and l: "lastWake ?w = 100004" and ws: "wake_starts ?w = [(100004, 1)]"
    by (simp_all add: run_no_deployment_def eval_defs)
  have f: "fetchLatestDeployment ?rd = Inr (Some JNull)" by (simp add: eval_defs)
  have t: "\<not> truthy (Some JNull)" by simp
  have u: "username_of bob \<noteq> []" and p: "\<not> includes_str (username_of bob) MCPingHost"
    by (simp_all add: eval_defs)
  have h: "\<not> isServerRunning NetworkError" by (simp add: eval_defs)
  have cd: "COOLDOWN_MS \<le> 160004 - 100004" and lt: "(160003 :: int) - 100004 < COOLDOWN_MS"
    by (simp_all add: COOLDOWN_MS_def)
  note late = no_deployment_frees_lock_not_cooldown [OF a f t b u p h, of 100300 160004 100301]
  note early = no_deployment_frees_lock_not_cooldown [OF a f t b u p h, of 100300 160003 100301]
  from late have 1: "\<not> restarting (step 100300 (DeploymentDone 1 ?rd) ?w)" by blast
  from late cd l ws have 2:
    "wake_starts (run [(100301, Data 2 bob), (160004, HealthDone 2 NetworkError)]
        (step 100300 (DeploymentDone 1 ?rd) ?w)) = [(100004, 1), (160004, 2)]"
    by simp
  from early lt l ws have 3:
    "socks (run [(100301, Data 2 bob), (160003, HealthDone 2 NetworkError)]
        (step 100300 (DeploymentDone 1 ?rd) ?w)) 2 = SockEnded (Some msg_starting_wait)"
    and 4: "wake_starts (run [(100301, Data 2 bob), (160003, HealthDone 2 NetworkError)]
        (step 100300 (DeploymentDone 1 ?rd) ?w)) = [(100004, 1)]"
    by simp_all
  from a f t b u p h l cd 1 2 lt 3 4 show ?thesis by blast
qed

text \<open>
  C2 as first stated fails: connection 2, checked 301 ms after connection 1 found no
  deployment, is told to wait, and the only wake started is that of connection 1.
\<close>

theorem second_connection_told_to_wait:
  "\<not> restarting (run run_no_deployment init)
   \<and> socks (run run_no_deployment init) 1 = SockEnded (Some msg_no_deployment)
   \<and> socks (run run_no_deployment init) 2 = SockEnded (Some msg_starting_wait)
   \<and> wake_starts (run run_no_deployment init) = [(100004, 1)]"
  by (simp add: run_no_deployment_def eval_defs)

text \<open>
  C7, amended. On the path with no deployment only \<open>restarting\<close> is reset: \<open>lastWake\<close>
  keeps the time written when the lock was taken. A second connection that is not a
  probe, whose check of the lock (the segment that follows its health answer) runs less
  than \<open>COOLDOWN_MS\<close> after that time with the server still down, is told to wait and
  sends nothing to the Deployment Controller, whenever its first chunk arrived.
\<close>

theorem no_deployment_keeps_lastWake:
  assumes "tasks w a = AwaitHealth" and "\<not> isServerRunning ra"
    and "\<not> restarting w" and "COOLDOWN_MS \<le> t0 - lastWake w"
    and "fetchLatestDeployment rd = Inr v" and "\<not> truthy v"
    and "tasks w b = Armed" and "username_of text \<noteq> []"
    and "\<not> includes_str (username_of text) MCPingHost" and "\<not> isServerRunning rb"
    and "t3 - t0 < COOLDOWN_MS"
  shows "\<not> restarting (run [(t0, HealthDone a ra), (t1, DeploymentDone a rd)] w)
     \<and> lastWake (run [(t0, HealthDone a ra), (t1, DeploymentDone a rd)] w) = t0
     \<and> socks (run [(t0, HealthDone a ra), (t1, DeploymentDone a rd),
                    (t2, Data b text), (t3, HealthDone b rb)] w) b
         = SockEnded (Some msg_starting_wait)
     \<and> dc_calls (run [(t0, HealthDone a ra), (t1, DeploymentDone a rd),
                       (t2, Data b text), (t3, HealthDone b rb)] w)
         = dc_calls w @ [(t0, a)]
     \<and> \<not> restarting (run [(t0, HealthDone a ra), (t1, DeploymentDone a rd),
                       (t2, Data b text), (t3, HealthDone b rb)] w)
     \<and> lastWake (run [(t0, HealthDone a ra), (t1, DeploymentDone a rd),
                       (t2, Data b text), (t3, HealthDone b rb)] w) = t0"
proof -
  from assms(1,7) have ne: "a \<noteq> b" by auto
  let ?w0 = "handler_health t0 a ra w"
  have w0: "?w0 = w\<lparr>restarting := True, lastWake := t0,
             tasks := (tasks w)(a := AwaitDeployment),
             calls := calls w @ [(t0, a, FetchLatest)]\<rparr>"
    using assms(1-4) by (simp add: handler_health_def)
  have a0: "tasks ?w0 a = AwaitDeployment" by (simp add: w0)
  let ?w1 = "handler_deployment t1 a rd ?w0"
  have w1: "?w1 = (finish a (Some msg_no_deployment) ?w0)\<lparr>restarting := False\<rparr>"
    using a0 assms(5,6) by (simp add: handler_deployment_def)
  have b1: "tasks ?w1 b = Armed"
    using assms(7) ne by (simp add: w1 finish_def) (simp add: w0)
  have re: "\<not> restarting ?w1" by (simp add: w1)
  have lw: "lastWake ?w1 = t0" by (simp add: w1 finish_def) (simp add: w0)
  have dc: "dc_calls ?w1 = dc_calls w @ [(t0, a)]"
    by (simp add: w1) (simp add: w0 dc_calls_def finish_def)
  let ?w2 = "handler_data t2 b text ?w1"
  have w2: "?w2 = ?w1\<lparr>tasks := (tasks ?w1)(b := AwaitHealth), calls := calls ?w1 @ [(t2, b, HealthCheck)]\<rparr>"
    using b1 assms(8,9) by (simp add: handler_data_def)
  have b2: "tasks ?w2 b = AwaitHealth" and re2: "\<not> restarting ?w2" and lw2: "lastWake ?w2 = t0"
    by (simp_all add: w2 re lw)
  have dc2: "dc_calls ?w2 = dc_calls w @ [(t0, a)]"
    unfolding w2 using dc by (simp add: dc_calls_def)
  let ?w3 = "handler_health t3 b rb ?w2"
  have w3: "?w3 = finish b (Some msg_starting_wait) ?w2"
    using b2 assms(10,11) lw2 by (simp add: handler_health_def)
  have 3: "socks ?w3 b = SockEnded (Some msg_starting_wait)" "\<not> restarting ?w3" "lastWake ?w3 = t0"
    unfolding w3 using re2 lw2 by (simp_all add: finish_def)
  have 4: "dc_calls ?w3 = dc_calls w @ [(t0, a)]"
    unfolding w3 using dc2 by simp
  from re lw 3 4 show ?thesis by simp
qed

text \<open>C7, amended, on a run: the second connection is checked 59999 ms after the lock was taken.\<close>

theorem no_deployment_keeps_lastWake_witness:
  "tasks (run [(100000, Data 1 alice)] init) 1 = AwaitHealth
   \<and> \<not> isServerRunning NetworkError
   \<and> \<not> restarting (run [(100000, Data 1 alice)] init)
   \<and> COOLDOWN_MS \<le> 100004 - lastWake (run [(100000, Data 1 alice)] init)
   \<and> fetchLatestDeployment (Response 200 (Json body_no_deployment)) = Inr (Some JNull)
   \<and> \<not> truthy (Some JNull)
   \<and> tasks (run [(100000, Data 1 alice)] init) 2 = Armed
   \<and> username_of bob \<noteq> [] \<and> \<not> includes_str (username_of bob) MCPingHost
   \<and> (160003 :: int) - 100004 < COOLDOWN_MS
   \<and> lastWake (run [(100004, HealthDone 1 NetworkError),
                     (100300, DeploymentDone 1 (Response 200 (Json body_no_deployment)))]
                (run [(100000, Data 1 alice)] init)) = 100004
   \<and> socks (run [(100004, HealthDone 1 NetworkError),
                  (100300, DeploymentDone 1 (Response 200 (Json body_no_deployment))),
                  (100301, Data 2 bob), (160003, HealthDone 2 NetworkError)]
             (run [(100000, Data 1 alice)] init)) 2 = SockEnded (Some msg_starting_wait)"
proof -
  let ?w = "run [(100000, Data 1 alice)] init"
  let ?rd = "Response 200 (Json body_no_deployment)"
  have a: "tasks ?w 1 = AwaitHealth" and b: "tasks ?w 2 = Armed" and r: "\<not> restarting ?w"
    and cd: "COOLDOWN_MS \<le> 100004 - lastWake ?w"
    by (simp_all add: eval_defs)
  have f: "fetchLatestDeployment ?rd = Inr (Some JNull)" by (simp add: eval_defs)
  have t: "\<not> truthy (Some JNull)" by simp
  have u: "username_of bob \<noteq> []" and p: "\<not> includes_str (username_of bob) MCPingHost"
    by (simp_all add: eval_defs)
  have h: "\<not> isServerRunning NetworkError" by (simp add: eval_defs)
  have lt: "(160003 :: int) - 100004 < COOLDOWN_MS" by (simp add: COOLDOWN_MS_def)
  note inst = no_deployment_keeps_lastWake [OF a h r cd f t b u p h lt, of 100300 100301]
  from inst have 1: "lastWake (run [(100004, HealthDone 1 NetworkError),
                     (100300, DeploymentDone 1 ?rd)] ?w) = 100004" by blast
  from inst have 2: "socks (run [(100004, HealthDone 1 NetworkError),
                  (100300, DeploymentDone 1 ?rd),
                  (100301, Data 2 bob), (160003, HealthDone 2 NetworkError)] ?w) 2
       = SockEnded (Some msg_starting_wait)" by blast
  from a h r cd f t b u p lt 1 2 show ?thesis by blast
qed

text \<open>
  C7 as first stated fails: the first chunk of connection 2 arrives at 100301, 297 ms
  after connection 1 took the lock, with the server still down; its health request is
  answered at 160004, and connection 2 is not told to wait: it sends a request for the
  latest deployment.
\<close>

theorem late_check_starts_second_wake:
  "lastWake (run (take 3 run_slow_second) init) = 100004
   \<and> \<not> restarting (run (take 3 run_slow_second) init)
   \<and> (100301 :: int) - 100004 < COOLDOWN_MS
   \<and> tasks (run (take 4 run_slow_second) init) 2 = AwaitHealth
   \<and> tasks (run run_slow_second init) 2 = AwaitDeployment
   \<and> socks (run run_slow_second init) 2 = SockOpen
   \<and> dc_calls (run run_slow_second init) = [(100004, 1), (160004, 2)]"
  by (simp add: run_slow_second_def eval_defs)

subsection \<open>Failures of the Deployment Controller\<close>

text \<open>
  C3, amended. Both wrappers answer the failure value (\<open>null\<close>, \<open>false\<close>) when the body
  parses to a value with a truthy \<open>errors\<close> property; they throw on a rejected request
  and on a body that does not parse; the status code changes nothing in their answer.
  An exception of a wrapper is caught by the handler, which closes the socket with no
  text; a failure value makes the handler write an error text.
\<close>

theorem controller_failures:
  "(get_prop (Some data) (str ''errors'') = Inr errors \<and> truthy errors \<longrightarrow>
      fetchLatestDeployment (Response status (Json data)) = Inr (Some JNull)
      \<and> restartDeployment i (Response status (Json data)) = Inr False)
   \<and> fetchLatestDeployment NetworkError = Inl FetchError
   \<and> restartDeployment i NetworkError = Inl FetchError
   \<and> fetchLatestDeployment (Response status Malformed) = Inl SyntaxError
   \<and> restartDeployment i (Response status Malformed) = Inl SyntaxError
   \<and> fetchLatestDeployment (Response status body) = fetchLatestDeployment (Response status' body)
   \<and> restartDeployment i (Response status body) = restartDeployment i (Response status' body)
   \<and> (tasks w c = AwaitDeployment \<and> fetchLatestDeployment r = Inl e \<longrightarrow>
        socks (step now (DeploymentDone c r) w) c = SockEnded None
        \<and> tasks (step now (DeploymentDone c r) w) c = Finished)
   \<and> (tasks w c = AwaitRestart i \<and> restartDeployment i r = Inl e \<longrightarrow>
        socks (step now (RestartDone c r) w) c = SockEnded None
        \<and> tasks (step now (RestartDone c r) w) c = Finished)
   \<and> (tasks w c = AwaitDeployment \<and> fetchLatestDeployment r = Inr None \<longrightarrow>
        socks (step now (DeploymentDone c r) w) c = SockEnded (Some msg_no_deployment))
   \<and> (tasks w c = AwaitDeployment \<and> fetchLatestDeployment r = Inr (Some JNull) \<longrightarrow>
        socks (step now (DeploymentDone c r) w) c = SockEnded (Some msg_no_deployment))
   \<and> (tasks w c = AwaitRestart i \<and> restartDeployment i r = Inr False \<longrightarrow>
        socks (step now (RestartDone c r) w) c = SockEnded (Some msg_error_starting))"
proof -
  have 1: "get_prop (Some data) (str ''errors'') = Inr errors \<and> truthy errors \<longrightarrow>
      fetchLatestDeployment (Response status (Json data)) = Inr (Some JNull)
      \<and> restartDeployment i (Response status (Json data)) = Inr False"
    by (simp add: fetchLatestDeployment_def restartDeployment_def)
  have 2: "fetchLatestDeployment NetworkError = Inl FetchError"
    "restartDeployment i NetworkError = Inl FetchError"
    "fetchLatestDeployment (Response status Malformed) = Inl SyntaxError"
    "restartDeployment i (Response status Malformed) = Inl SyntaxError"
    by (simp_all add: fetchLatestDeployment_def restartDeployment_def)
  have 3: "fetchLatestDeployment (Response status body) = fetchLatestDeployment (Response status' body)"
    "restartDeployment i (Response status body) = restartDeployment i (Response status' body)"
    by (cases body; simp add: fetchLatestDeployment_def restartDeployment_def)+
  have 4: "tasks w c = AwaitDeployment \<and> fetchLatestDeployment r = Inl e \<longrightarrow>
        socks (step now (DeploymentDone c r) w) c = SockEnded None
        \<and> tasks (step now (DeploymentDone c r) w) c = Finished"
    by (simp add: handler_deployment_def finish_def)
  have 5: "tasks w c = AwaitRestart i \<and> restartDeployment i r = Inl e \<longrightarrow>
        socks (step now (RestartDone c r) w) c = SockEnded None
        \<and> tasks (step now (RestartDone c r) w) c = Finished"
    by (simp add: handler_restart_def finish_def)
  have 6: "tasks w c = AwaitDeployment \<and> fetchLatestDeployment r = Inr None \<longrightarrow>
        socks (step now (DeploymentDone c r) w) c = SockEnded (Some msg_no_deployment)"
    "tasks w c = AwaitDeployment \<and> fetchLatestDeployment r = Inr (Some JNull) \<longrightarrow>
        socks (step now (DeploymentDone c r) w) c = SockEnded (Some msg_no_deployment)"
    by (simp_all add: handler_deployment_def finish_def)
  have 7: "tasks w c = AwaitRestart i \<and> restartDeployment i r = Inr False \<longrightarrow>
        socks (step now (RestartDone c r) w) c = SockEnded (Some msg_error_starting)"
    by (simp add: handler_restart_def finish_def)
  from 1 2 3 4 5 6 7 show ?thesis by blast
qed

text \<open>C3, amended, on a 401 answer with an error payload and on a 502 answer with no JSON.\<close>

theorem controller_failures_witness:
  "get_prop (Some body_errors) (str ''errors'')
     = Inr (Some (JArr [JObj [(str ''message'', JStr (str ''Not Authorized''))]]))
   \<and> truthy (Some (JArr [JObj [(str ''message'', JStr (str ''Not Authorized''))]]))
   \<and> fetchLatestDeployment (Response 401 (Json body_errors)) = Inr (Some JNull)
   \<and> restartDeployment (Some (JStr (str ''d1''))) (Response 401 (Json body_errors)) = Inr False
   \<and> tasks (run run_to_restart init) 1 = AwaitRestart (Some (JStr (str ''d1'')))
   \<and> restartDeployment (Some (JStr (str ''d1''))) (Response 502 Malformed) = Inl SyntaxError
   \<and> socks (step 100900 (RestartDone 1 (Response 502 Malformed)) (run run_to_restart init)) 1
       = SockEnded None
   \<and> socks (step 100900 (RestartDone 1 (Response 401 (Json body_errors))) (run run_to_restart init)) 1
       = SockEnded (Some msg_error_starting)
   \<and> tasks (run (take 2 run_to_restart) init) 1 = AwaitDeployment
   \<and> fetchLatestDeployment (Response 200 (Json JNull)) = Inl TypeError
   \<and> socks (step 100300 (DeploymentDone 1 (Response 200 (Json JNull)))
        (run (take 2 run_to_restart) init)) 1 = SockEnded None
   \<and> socks (step 100300 (DeploymentDone 1 (Response 401 (Json body_errors)))
        (run (take 2 run_to_restart) init)) 1 = SockEnded (Some msg_no_deployment)
   \<and> fetchLatestDeployment (Response 200 (Json (JObj [(str ''data'', JObj [(str ''deployments'',
        JObj [(str ''edges'', JArr [JObj []])])])]))) = Inr None
   \<and> socks (step 100300 (DeploymentDone 1 (Response 200 (Json (JObj [(str ''data'',
        JObj [(str ''deployments'', JObj [(str ''edges'', JArr [JObj []])])])]))))
        (run (take 2 run_to_restart) init)) 1 = SockEnded (Some msg_no_deployment)"
proof -
  let ?errors = "Some (JArr [JObj [(str ''message'', JStr (str ''Not Authorized''))]])"
  let ?i = "Some (JStr (str ''d1''))"
  let ?w = "run run_to_restart init"
  let ?v = "run (take 2 run_to_restart) init"
  let ?bare = "Response 200 (Json (JObj [(str ''data'', JObj [(str ''deployments'',
        JObj [(str ''edges'', JArr [JObj []])])])]))"
  have g: "get_prop (Some body_errors) (str ''errors'') = Inr ?errors"
    by (simp add: body_errors_def str_def)
  have t: "truthy ?errors" by simp
  have a: "tasks ?w 1 = AwaitRestart ?i" and d: "tasks ?v 1 = AwaitDeployment"
    by (simp_all add: run_to_restart_def eval_defs)
  have x: "restartDeployment ?i (Response 502 Malformed) = Inl SyntaxError"
    by (simp add: restartDeployment_def)
  have y: "fetchLatestDeployment (Response 200 (Json JNull)) = Inl TypeError"
    by (simp add: fetchLatestDeployment_def)
  have z: "fetchLatestDeployment ?bare = Inr None"
    by (simp add: fetchLatestDeployment_def str_def)
  note payload = controller_failures [where data = body_errors and errors = ?errors
      and status = 401 and i = ?i and w = ?w and c = 1 and r = "Response 401 (Json body_errors)"
      and now = 100900]
  from payload g t have 1: "fetchLatestDeployment (Response 401 (Json body_errors)) = Inr (Some JNull)"
    and 2: "restartDeployment ?i (Response 401 (Json body_errors)) = Inr False"
    by blast+
  from payload a 2 have 3:
    "socks (step 100900 (RestartDone 1 (Response 401 (Json body_errors))) ?w) 1
       = SockEnded (Some msg_error_starting)"
    by blast
  from controller_failures [where i = ?i and w = ?w and c = 1 and r = "Response 502 Malformed"
      and e = SyntaxError and now = 100900] a x
  have 4: "socks (step 100900 (RestartDone 1 (Response 502 Malformed)) ?w) 1 = SockEnded None"
    by blast
  from controller_failures [where w = ?v and c = 1 and r = "Response 200 (Json JNull)"
      and e = TypeError and now = 100300] d y
  have 5: "socks (step 100300 (DeploymentDone 1 (Response 200 (Json JNull))) ?v) 1 = SockEnded None"
    by blast
  from controller_failures [where w = ?v and c = 1 and r = "Response 401 (Json body_errors)"
      and now = 100300] d 1
  have 6: "socks (step 100300 (DeploymentDone 1 (Response 401 (Json body_errors))) ?v) 1
       = SockEnded (Some msg_no_deployment)"
    by blast
  from controller_failures [where w = ?v and c = 1 and r = ?bare and now = 100300] d z
  have 7: "socks (step 100300 (DeploymentDone 1 ?bare) ?v) 1 = SockEnded (Some msg_no_deployment)"
    by blast
  from g t 1 2 a x 4 3 d y 5 6 z 7 show ?thesis by blast
qed

text \<open>
  C3 as first stated fails: \<open>fetchLatestDeployment\<close> throws on a rejected request,
  \<open>restartDeployment\<close> answers \<open>true\<close> to a status 500 whose body is \<open>{}\<close>, and a
  restart request lost on the network leaves the client with no text.
\<close>

theorem wrappers_throw_or_report_success:
  "fetchLatestDeployment NetworkError = Inl FetchError
   \<and> restartDeployment (Some (JStr (str ''d1''))) (Response 500 (Json (JObj []))) = Inr True
   \<and> socks (run (run_to_restart @ [(100900, RestartDone 1 NetworkError)]) init) 1 = SockEnded None"
  by (simp add: run_to_restart_def eval_defs)

subsection \<open>The release of the lock after a restart request\<close>

text \<open>A stuck lock stays stuck, whatever is handled next.\<close>

lemma stuck_step: "stuck w \<Longrightarrow> stuck (step t e w)"
proof (cases e)
  case (Data c chunk)
  assume "stuck w"
  then show ?thesis
    unfolding Data stuck_def by (auto simp add: handler_data_def finish_def)
next
  case (HealthDone c r)
  assume "stuck w"
  then show ?thesis
    unfolding HealthDone stuck_def by (auto simp add: handler_health_def finish_def)
next
  case (DeploymentDone c r)
  assume s: "stuck w"
  then have "tasks w c \<noteq> AwaitDeployment" unfolding stuck_def by (metis active.simps(1))
  with s show ?thesis
    unfolding DeploymentDone by (simp add: handler_deployment_def)
next
  case (RestartDone c r)
  assume s: "stuck w"
  then have "\<not> active (tasks w c)" unfolding stuck_def by blast
  then have "handler_restart t c r w = w"
    by (cases "tasks w c") (simp_all add: handler_restart_def)
  with s show ?thesis
    unfolding RestartDone by simp
next
  case TimerFire
  assume "stuck w"
  then show ?thesis
    unfolding TimerFire stuck_def by (simp add: timer_callback_def)
qed

lemma stuck_run: "stuck w \<Longrightarrow> stuck (run tr w)"
proof (induction tr arbitrary: w)
  case Nil
  then show ?case by simp
next
  case (Cons a tr)
  obtain t e where a: "a = (t, e)" by (cases a)
  from Cons.prems have "stuck (step t e w)" by (rule stuck_step)
  then have "stuck (run tr (step t e w))" by (rule Cons.IH)
  then show ?case by (simp add: a)
qed

lemma throw_sticks:
  assumes "lock_inv now w" and c: "active (tasks w c)"
  shows "stuck (finish c None w)"
proof -
  note p = parts [OF assms(1)]
  have "restarting w" using active_locked [OF p(3) c] .
  moreover have "timers w = []" using active_okD(1) [OF p(4) c] .
  moreover have "\<And>c'. active (tasks w c') \<Longrightarrow> c' = c" using active_okD(3) [OF p(4) c] .
  ultimately show ?thesis unfolding stuck_def by (auto simp add: finish_def)
qed

text \<open>
  C4, on the exit it does not cover. In any state reached in which a connection waits
  for the answer to its restart request, if \<open>restartDeployment\<close> throws, then no timer
  is armed and \<open>restarting\<close> is true after every continuation of the run: the lock is
  never released.
\<close>

theorem restart_throw_never_released:
  assumes "sorted (map fst tr)" and "tasks (run tr init) c = AwaitRestart i"
    and "restartDeployment i r = Inl e"
  shows "\<forall>tr'. restarting (run tr' (step now (RestartDone c r) (run tr init)))
             \<and> timers (run tr' (step now (RestartDone c r) (run tr init))) = []"
proof -
  from inv_reachable [OF assms(1)] obtain t where "lock_inv t (run tr init)" ..
  moreover have "active (tasks (run tr init) c)" using assms(2) by simp
  ultimately have "stuck (finish c None (run tr init))" by (rule throw_sticks)
  moreover have "step now (RestartDone c r) (run tr init) = finish c None (run tr init)"
    using assms(2,3) by (simp add: handler_restart_def)
  ultimately have "stuck (run tr' (step now (RestartDone c r) (run tr init)))" for tr'
    by (simp add: stuck_run)
  then show ?thesis unfolding stuck_def by blast
qed

text \<open>
  The restart request of connection 1 is lost on the network; a timer event a minute
  later finds nothing to run, and connection 2, thirteen minutes later, is told to wait.
\<close>

theorem restart_throw_never_released_witness:
  "sorted (map fst run_to_restart)
   \<and> tasks (run run_to_restart init) 1 = AwaitRestart (Some (JStr (str ''d1'')))
   \<and> restartDeployment (Some (JStr (str ''d1''))) NetworkError = Inl FetchError
   \<and> restarting (run [(160900, TimerFire), (900000, Data 2 bob), (900004, HealthDone 2 NetworkError)]
        (step 100900 (RestartDone 1 NetworkError) (run run_to_restart init)))
   \<and> socks (run [(160900, TimerFire), (900000, Data 2 bob), (900004, HealthDone 2 NetworkError)]
        (step 100900 (RestartDone 1 NetworkError) (run run_to_restart init))) 2
       = SockEnded (Some msg_starting_wait)"
proof -
  have s: "sorted (map fst run_to_restart)" by (simp add: run_to_restart_def)
  have a: "tasks (run run_to_restart init) 1 = AwaitRestart (Some (JStr (str ''d1'')))"
    by (simp add: run_to_restart_def eval_defs)
  have x: "restartDeployment (Some (JStr (str ''d1''))) NetworkError = Inl FetchError"
    by (simp add: restartDeployment_def)
  from restart_throw_never_released [OF s a x, of 100900]
  have 1: "restarting (run [(160900, TimerFire), (900000, Data 2 bob), (900004, HealthDone 2 NetworkError)]
        (step 100900 (RestartDone 1 NetworkError) (run run_to_restart init)))" by blast
  have 2: "socks (run [(160900, TimerFire), (900000, Data 2 bob), (900004, HealthDone 2 NetworkError)]
        (step 100900 (RestartDone 1 NetworkError) (run run_to_restart init))) 2
       = SockEnded (Some msg_starting_wait)"
    by (simp add: run_to_restart_def eval_defs)
  from s a x 1 2 show ?thesis by blast
qed

text \<open>
  When \<open>restartDeployment\<close> returns, with either answer, the timer is armed for
  \<open>COOLDOWN_MS\<close> after the answer, the lock is held through every event handled before
  that time, and a timer event at or after it releases the lock.
\<close>

lemma held_step: "held_until d w \<Longrightarrow> t < d \<Longrightarrow> held_until d (step t e w)"
proof (cases e)
  case (Data c chunk)
  assume "held_until d w"
  then show ?thesis
    unfolding Data held_until_def by (auto simp add: handler_data_def finish_def)
next
  case (HealthDone c r)
  assume "held_until d w"
  then show ?thesis
    unfolding HealthDone held_until_def by (auto simp add: handler_health_def finish_def)
next
  case (DeploymentDone c r)
  assume s: "held_until d w"
  then have "tasks w c \<noteq> AwaitDeployment" unfolding held_until_def by (metis active.simps(1))
  with s show ?thesis
    unfolding DeploymentDone by (simp add: handler_deployment_def)
next
  case (RestartDone c r)
  assume s: "held_until d w"
  then have "\<not> active (tasks w c)" unfolding held_until_def by blast
  then have "handler_restart t c r w = w"
    by (cases "tasks w c") (simp_all add: handler_restart_def)
  with s show ?thesis
    unfolding RestartDone by simp
next
  case TimerFire
  assume "held_until d w" "t < d"
  then show ?thesis
    unfolding TimerFire held_until_def by (simp add: timer_callback_def)
qed

lemma held_run: "held_until d w \<Longrightarrow> \<forall>t \<in> set (map fst tr). t < d \<Longrightarrow> held_until d (run tr w)"
proof (induction tr arbitrary: w)
  case Nil
  then show ?case by simp
next
  case (Cons a tr)
  obtain t e where a: "a = (t, e)" by (cases a)
  from Cons.prems a have "t < d" and rest: "\<forall>t \<in> set (map fst tr). t < d" by auto
  from Cons.prems(1) \<open>t < d\<close> have "held_until d (step t e w)" by (rule held_step)
  then have "held_until d (run tr (step t e w))" using rest by (rule Cons.IH)
  then show ?case by (simp add: a)
qed

lemma restart_answer_holds_lock:
  assumes "sorted (map fst tr)" and "tasks (run tr init) c = AwaitRestart i"
    and "restartDeployment i r = Inr success" and "\<forall>t \<in> set (map fst tr'). t < now + COOLDOWN_MS"
    and "now + COOLDOWN_MS \<le> t'"
  shows "socks (step now (RestartDone c r) (run tr init)) c
           = SockEnded (Some (if success then msg_starting_retry else msg_error_starting))"
    and "timers (step now (RestartDone c r) (run tr init)) = [now + COOLDOWN_MS]"
    and "restarting (run tr' (step now (RestartDone c r) (run tr init)))"
    and "\<not> restarting (step t' TimerFire (run tr' (step now (RestartDone c r) (run tr init))))"
proof -
  let ?w = "run tr init"
  let ?w' = "step now (RestartDone c r) ?w"
  from inv_reachable [OF assms(1)] obtain t where "lock_inv t ?w" ..
  note p = parts [OF this]
  have a: "active (tasks ?w c)" using assms(2) by simp
  have lk: "restarting ?w" using active_locked [OF p(3) a] .
  have tm: "timers ?w = []" using active_okD(1) [OF p(4) a] .
  have only: "\<And>c'. active (tasks ?w c') \<Longrightarrow> c' = c" using active_okD(3) [OF p(4) a] .
  have w': "?w' = (finish c (Some (if success then msg_starting_retry else msg_error_starting)) ?w)
                 \<lparr>timers := timers ?w @ [now + COOLDOWN_MS]\<rparr>"
    using assms(2,3) by (simp add: handler_restart_def)
  show "socks ?w' c = SockEnded (Some (if success then msg_starting_retry else msg_error_starting))"
    unfolding w' by (simp add: finish_def)
  show "timers ?w' = [now + COOLDOWN_MS]" unfolding w' using tm by (simp add: finish_def)
  have "held_until (now + COOLDOWN_MS) ?w'"
    unfolding w' held_until_def using lk tm only by (auto simp add: finish_def)
  then have h: "held_until (now + COOLDOWN_MS) (run tr' ?w')" using assms(4) by (rule held_run)
  then show "restarting (run tr' ?w')" unfolding held_until_def by blast
  from h assms(5) show "\<not> restarting (step t' TimerFire (run tr' ?w'))"
    unfolding held_until_def by (simp add: timer_callback_def)
qed

subsection \<open>The two short answers\<close>

text \<open>
  C5. Whatever the state, when \<open>isServerRunning\<close> answers true for a connection that is
  not a probe, the handler writes the "already online" text and ends; \<open>restarting\<close>,
  \<open>lastWake\<close>, the timers and the log of requests are unchanged, so nothing is sent to
  the Deployment Controller.
\<close>

theorem running_no_mutation:
  assumes "tasks w c = AwaitHealth" and "isServerRunning r"
  shows "socks (step now (HealthDone c r) w) c = SockEnded (Some msg_already_online)
       \<and> tasks (step now (HealthDone c r) w) c = Finished
       \<and> restarting (step now (HealthDone c r) w) = restarting w
       \<and> lastWake (step now (HealthDone c r) w) = lastWake w
       \<and> timers (step now (HealthDone c r) w) = timers w
       \<and> calls (step now (HealthDone c r) w) = calls w"
  using assms by (simp add: handler_health_def finish_def)

text \<open>C5 in a state where another connection holds the lock.\<close>

theorem running_no_mutation_witness:
  "tasks (run (run_to_restart @ [(100400, Data 2 bob)]) init) 2 = AwaitHealth
   \<and> isServerRunning (Response 200 (Json (JObj [(str ''status'', JStr (str ''inactive''))])))
   \<and> restarting (run (run_to_restart @ [(100400, Data 2 bob)]) init)
   \<and> socks (step 100410 (HealthDone 2 (Response 200 (Json (JObj [(str ''status'', JStr (str ''inactive''))]))))
        (run (run_to_restart @ [(100400, Data 2 bob)]) init)) 2 = SockEnded (Some msg_already_online)
   \<and> restarting (step 100410 (HealthDone 2 (Response 200 (Json (JObj [(str ''status'', JStr (str ''inactive''))]))))
        (run (run_to_restart @ [(100400, Data 2 bob)]) init))"
proof -
  let ?w = "run (run_to_restart @ [(100400, Data 2 bob)]) init"
  let ?r = "Response 200 (Json (JObj [(str ''status'', JStr (str ''inactive''))]))"
  have t: "tasks ?w 2 = AwaitHealth" by (simp add: run_to_restart_def eval_defs)
  have h: "isServerRunning ?r" by (simp add: eval_defs)
  have l: "restarting ?w" by (simp add: run_to_restart_def eval_defs)
  from running_no_mutation [OF t h, of 100410] t h l show ?thesis by simp
qed

text \<open>
  C6. When \<open>isServerRunning\<close> answers false and either \<open>restarting\<close> is true or less
  than \<open>COOLDOWN_MS\<close> has passed since \<open>lastWake\<close>, the handler writes the "starting,
  please wait" text and ends; nothing is sent, and \<open>restarting\<close>, \<open>lastWake\<close> and the
  timers are unchanged.
\<close>

theorem lock_or_cooldown_answers_wait:
  assumes "tasks w c = AwaitHealth" and "\<not> isServerRunning r"
    and "restarting w \<or> now - lastWake w < COOLDOWN_MS"
  shows "socks (step now (HealthDone c r) w) c = SockEnded (Some msg_starting_wait)
       \<and> tasks (step now (HealthDone c r) w) c = Finished
       \<and> calls (step now (HealthDone c r) w) = calls w
       \<and> restarting (step now (HealthDone c r) w) = restarting w
       \<and> lastWake (step now (HealthDone c r) w) = lastWake w
       \<and> timers (step now (HealthDone c r) w) = timers w"
  using assms by (auto simp add: handler_health_def finish_def)

text \<open>C6 in a state where another connection holds the lock.\<close>

theorem lock_or_cooldown_answers_wait_witness:
  "tasks (run (run_to_restart @ [(100400, Data 2 bob)]) init) 2 = AwaitHealth
   \<and> \<not> isServerRunning (Response 503 Malformed)
   \<and> restarting (run (run_to_restart @ [(100400, Data 2 bob)]) init)
   \<and> socks (step 100410 (HealthDone 2 (Response 503 Malformed))
        (run (run_to_restart @ [(100400, Data 2 bob)]) init)) 2 = SockEnded (Some msg_starting_wait)
   \<and> calls (step 100410 (HealthDone 2 (Response 503 Malformed))
        (run (run_to_restart @ [(100400, Data 2 bob)]) init))
      = calls (run (run_to_restart @ [(100400, Data 2 bob)]) init)"
proof -
  let ?w = "run (run_to_restart @ [(100400, Data 2 bob)]) init"
  have t: "tasks ?w 2 = AwaitHealth" by (simp add: run_to_restart_def eval_defs)
  have h: "\<not> isServerRunning (Response 503 Malformed)" by (simp add: eval_defs)
  have l: "restarting ?w" by (simp add: run_to_restart_def eval_defs)
  then have l': "restarting ?w \<or> 100410 - lastWake ?w < COOLDOWN_MS" ..
  from lock_or_cooldown_answers_wait [OF t h l'] t h l show ?thesis by simp
qed

subsection \<open>Empty tokens and status probes\<close>

text \<open>
  C8. When the token of the first chunk of a connection is empty, or contains
  \<open>MCPingHost\<close>, the socket is closed with no text and the handler ends: no request is
  sent (the health request included), and \<open>restarting\<close>, \<open>lastWake\<close> and the timers are
  unchanged, whatever the state.
\<close>

theorem empty_or_probe_closed_silently:
  assumes "tasks w c = Armed"
    and "username_of text = [] \<or> includes_str (username_of text) MCPingHost"
  shows "socks (step now (Data c text) w) c = SockEnded None
       \<and> tasks (step now (Data c text) w) c = Finished
       \<and> calls (step now (Data c text) w) = calls w
       \<and> restarting (step now (Data c text) w) = restarting w
       \<and> lastWake (step now (Data c text) w) = lastWake w
       \<and> timers (step now (Data c text) w) = timers w"
  using assms by (auto simp add: handler_data_def finish_def)

text \<open>C8 on the legacy server-list ping, whose text carries \<open>MC|PingHost\<close> in UTF-16.\<close>

theorem empty_or_probe_closed_silently_witness:
  "tasks init 7 = Armed
   \<and> includes_str (username_of [254, 1, 250, 0, 77, 0, 67, 0, 124, 0, 80, 0, 105, 0, 110, 0, 103,
        0, 72, 0, 111, 0, 115, 0, 116]) MCPingHost
   \<and> socks (step 100000 (Data 7 [254, 1, 250, 0, 77, 0, 67, 0, 124, 0, 80, 0, 105, 0, 110, 0, 103,
        0, 72, 0, 111, 0, 115, 0, 116]) init) 7 = SockEnded None
   \<and> calls (step 100000 (Data 7 [254, 1, 250, 0, 77, 0, 67, 0, 124, 0, 80, 0, 105, 0, 110, 0, 103,
        0, 72, 0, 111, 0, 115, 0, 116]) init) = []"
proof -
  let ?text = "[254, 1, 250, 0, 77, 0, 67, 0, 124, 0, 80, 0, 105, 0, 110, 0, 103,
        0, 72, 0, 111, 0, 115, 0, 116] :: js_string"
  have t: "tasks init 7 = Armed" by (simp add: init_def)
  have p: "includes_str (username_of ?text) MCPingHost" by (simp add: eval_defs)
  then have p': "username_of ?text = [] \<or> includes_str (username_of ?text) MCPingHost" ..
  have c: "calls init = []" by (simp add: init_def)
  from empty_or_probe_closed_silently [OF t p', of 100000] t p c show ?thesis by simp
qed

subsection \<open>The health check\<close>

lemma get_prop_defined: "data \<noteq> JNull \<Longrightarrow> \<exists>v. get_prop (Some data) k = Inr v"
  by (cases data) simp_all

text \<open>
  C9, amended. \<open>isServerRunning\<close> answers false to a rejected request, to every status
  outside 200..299, and to a body that does not parse; to a status in 200..299 with a
  body that parses to a value other than \<open>null\<close> it answers true, whatever the value and
  its \<open>status\<close> property; to a body that parses to \<open>null\<close> it answers false.
\<close>

theorem health_gate:
  "\<not> isServerRunning NetworkError
   \<and> (\<not> ok status \<longrightarrow> \<not> isServerRunning (Response status body))
   \<and> \<not> isServerRunning (Response status Malformed)
   \<and> (ok status \<and> data \<noteq> JNull \<longrightarrow> isServerRunning (Response status (Json data)))
   \<and> \<not> isServerRunning (Response status (Json JNull))"
proof -
  have "isServerRunning (Response status (Json data))" if "ok status" "data \<noteq> JNull"
  proof -
    from get_prop_defined [OF that(2)] obtain v where "get_prop (Some data) (str ''status'') = Inr v" ..
    with that(1) show ?thesis by (simp add: isServerRunning_def isServerRunning_try_def)
  qed
  then show ?thesis by (simp add: isServerRunning_def isServerRunning_try_def)
qed

text \<open>C9, amended, on a 200 whose body is a string and on a 404 whose body says "active".\<close>

theorem health_gate_witness:
  "ok 200 \<and> JStr (str ''down for maintenance'') \<noteq> JNull
   \<and> isServerRunning (Response 200 (Json (JStr (str ''down for maintenance''))))
   \<and> \<not> ok 404
   \<and> \<not> isServerRunning (Response 404 (Json (JObj [(str ''status'', JStr (str ''active''))])))"
proof -
  have a: "ok 200" and b: "JStr (str ''down for maintenance'') \<noteq> JNull" and c: "\<not> ok 404"
    by (simp_all add: ok_def)
  from health_gate [of 200 _ "JStr (str ''down for maintenance'')"] a b
  have 1: "isServerRunning (Response 200 (Json (JStr (str ''down for maintenance''))))" by blast
  from health_gate [of 404 "Json (JObj [(str ''status'', JStr (str ''active''))])"] c
  have 2: "\<not> isServerRunning (Response 404 (Json (JObj [(str ''status'', JStr (str ''active''))])))"
    by blast
  from a b c 1 2 show ?thesis by blast
qed

text \<open>
  C9 as first stated fails: the status 200 is a success and the body \<open>null\<close> parses as
  JSON, yet the answer is false (reading \<open>data.status\<close> throws, and the \<open>catch\<close> answers).
\<close>

theorem null_body_reads_not_running:
  "ok 200 \<and> \<not> isServerRunning (Response 200 (Json JNull))"
  by (simp add: isServerRunning_def isServerRunning_try_def ok_def)

subsection \<open>Start-up\<close>

text \<open>
  C10, amended. If one of the four required values is absent or is the empty string,
  the process exits with status 1 and never listens; if the four are present and not
  empty, the check passes and the listener is started on \<open>PORT\<close>.
\<close>

theorem startup_check:
  "((\<exists>k \<in> set required. e k = None \<or> e k = Some []) \<longrightarrow> startup e = Exited 1)
   \<and> ((\<forall>k \<in> set required. \<exists>v. e k = Some v \<and> v \<noteq> []) \<longrightarrow> startup e = Serving PORT)"
proof -
  have t: "env_truthy x \<longleftrightarrow> (\<exists>v. x = Some v \<and> v \<noteq> [])" for x by (cases x) simp_all
  have f: "\<not> env_truthy x \<longleftrightarrow> x = None \<or> x = Some []" for x by (cases x) simp_all
  show ?thesis
    by (auto simp add: startup_def config_missing_def required_def t)
qed

text \<open>C10, amended, on a complete environment and on an empty one.\<close>

theorem startup_check_witness:
  "(\<exists>v. env_complete ''PROJECT_ID'' = Some v \<and> v \<noteq> [])
   \<and> startup env_complete = Serving 25565
   \<and> startup Map.empty = Exited 1"
proof -
  have a: "\<forall>k \<in> set required. \<exists>v. env_complete k = Some v \<and> v \<noteq> []"
    by (simp add: required_def env_complete_def)
  have b: "\<exists>k \<in> set required. (Map.empty :: env) k = None \<or> (Map.empty :: env) k = Some []"
    by (auto simp add: required_def)
  from startup_check [of env_complete] a have 1: "startup env_complete = Serving PORT" by blast
  from startup_check [of Map.empty] b have 2: "startup Map.empty = Exited 1" by blast
  from a 1 2 show ?thesis by (simp add: PORT_def required_def)
qed

text \<open>
  C10 as first stated fails: with the four values present, the token being the empty
  string, the process exits with status 1.
\<close>

theorem empty_value_exits:
  "env_empty_token ''PROJECT_ID'' = Some ''p1'' \<and> env_empty_token ''ENVIRONMENT_ID'' = Some ''e1''
   \<and> env_empty_token ''SERVICE_ID'' = Some ''s1'' \<and> env_empty_token ''RAILWAY_API_TOKEN'' = Some []
   \<and> startup env_empty_token = Exited 1"
  by (simp add: env_empty_token_def startup_def config_missing_def)

end
